theory Spec2Isabelle
  imports Complex_Main
begin

section \<open>The e-commerce dataset generator (scripts/generate\_dataset.py)\<close>

text \<open>
  A shallow embedding of \<^verbatim>\<open>EcommerceDataGenerator\<close>. The generator keeps five lists
  (categories, products, users, sessions, transactions) and fills them in sequence; the
  transaction stage mutates product stock and user aggregates in place.

  Conventions of the model:
  \<^item> Python's global random state is an explicit random source that every drawing
    function takes and returns. The source is an arbitrary sequence of raw draws, and all
    theorems hold for every source, so they hold for the Mersenne twister seeded with 42.
    Draws for fields that are not modelled (names, e-mail addresses, ...) are left out: a
    source for the model is the subsequence of the draws that the modelled fields consume.
  \<^item> Python floats are idealised as exact rationals; \<^verbatim>\<open>round(x, n)\<close> rounds half to even.
  \<^item> Exceptions are values: a function that can raise returns \<open>py_error + result\<close>.
  \<^item> Objects that are mutated through references (products, users) are addressed by
    their position in the owning list.
  \<^item> Identifiers are the numbers the source formats (\<^verbatim>\<open>f"prod_{i:05d}"\<close> is the
    number \<open>i\<close>); datetimes are integers counting microseconds.
\<close>

subsection \<open>Exceptions and the random source\<close>

datatype py_error = IndexError | ValueError | ZeroDivisionError

type_synonym rng = "(nat \<Rightarrow> nat) \<times> nat"

definition draw :: "rng \<Rightarrow> nat \<times> rng" where
  "draw g = (fst g (snd g), (fst g, Suc (snd g)))"

text \<open>\<^verbatim>\<open>random.randint(a, b)\<close>: an integer of \<open>[a, b]\<close>; ValueError on an empty range.\<close>

definition randint :: "int \<Rightarrow> int \<Rightarrow> rng \<Rightarrow> py_error + (int \<times> rng)" where
  "randint a b g =
     (if b < a then Inl ValueError
      else (case draw g of (r, g1) \<Rightarrow> Inr (a + int (r mod nat (b - a + 1)), g1)))"

text \<open>\<^verbatim>\<open>random.random()\<close>: a multiple of \<open>2^-53\<close> in \<open>[0, 1)\<close>.\<close>

definition py_random :: "rng \<Rightarrow> rat \<times> rng" where
  "py_random g = (case draw g of (r, g1) \<Rightarrow> (of_nat (r mod 2 ^ 53) / 2 ^ 53, g1))"

text \<open>\<^verbatim>\<open>random.uniform(a, b)\<close> is \<^verbatim>\<open>a + (b - a) * random()\<close>.\<close>

definition uniform :: "rat \<Rightarrow> rat \<Rightarrow> rng \<Rightarrow> rat \<times> rng" where
  "uniform a b g = (case py_random g of (u, g1) \<Rightarrow> (a + (b - a) * u, g1))"

text \<open>\<^verbatim>\<open>random.choice(seq)\<close>: IndexError on an empty sequence.\<close>

definition choice :: "'a list \<Rightarrow> rng \<Rightarrow> py_error + ('a \<times> rng)" where
  "choice seq g =
     (if seq = [] then Inl IndexError
      else (case draw g of (r, g1) \<Rightarrow> Inr (seq ! (r mod length seq), g1)))"

text \<open>
  \<^verbatim>\<open>random.choices(population, weights=w)[0]\<close>: bisection of \<^verbatim>\<open>random() * total\<close> in
  the cumulative weights, the index capped at the last element. Every call of the
  source passes two literal lists of equal, positive length, so it never raises.
\<close>

fun bisect_cum :: "rat list \<Rightarrow> rat \<Rightarrow> nat" where
  "bisect_cum [] x = 0"
| "bisect_cum (w # ws) x = (if x < w then 0 else Suc (bisect_cum ws (x - w)))"

definition choices_w :: "'a list \<Rightarrow> rat list \<Rightarrow> rng \<Rightarrow> 'a \<times> rng" where
  "choices_w population weights g =
     (case py_random g of (u, g1) \<Rightarrow>
        (population ! min (bisect_cum weights (u * sum_list weights)) (length population - 1), g1))"

text \<open>
  \<^verbatim>\<open>random.sample(population, k)\<close>: ValueError when \<open>k\<close> exceeds the population
  (a negative \<open>k\<close> cannot occur: \<open>k\<close> is a natural number here); otherwise \<open>k\<close> elements
  at distinct positions, each position drawn among those not yet taken.
\<close>

fun sample_from :: "'a list \<Rightarrow> nat \<Rightarrow> rng \<Rightarrow> 'a list \<times> rng" where
  "sample_from pool 0 g = ([], g)"
| "sample_from pool (Suc k) g =
     (case draw g of (r, g1) \<Rightarrow>
        (let j = r mod length pool in
         (case sample_from (take j pool @ drop (Suc j) pool) k g1 of
            (rest, g2) \<Rightarrow> (pool ! j # rest, g2))))"

definition sample :: "'a list \<Rightarrow> nat \<Rightarrow> rng \<Rightarrow> py_error + ('a list \<times> rng)" where
  "sample population k g =
     (if length population < k then Inl ValueError else Inr (sample_from population k g))"

subsection \<open>Rounding\<close>

text \<open>\<^verbatim>\<open>round(x, nd)\<close> on exact values: to \<open>nd\<close> decimals, ties to the even neighbour.\<close>

definition py_round :: "rat \<Rightarrow> nat \<Rightarrow> rat" where
  "py_round x nd =
     (let m = 10 ^ nd; y = x * m; f = \<lfloor>y\<rfloor>; d = y - of_int f
      in (if d < 1 / 2 then of_int f
          else if 1 / 2 < d then of_int (f + 1)
          else if even f then of_int f else of_int (f + 1)) / m)"

subsection \<open>Price history\<close>

record price_entry =
  price :: rat
  date :: int
  reason :: string

definition timedelta_days :: "int \<Rightarrow> int" where
  "timedelta_days d = d * 86400000000"

text \<open>
  One pass of the loop of \<^verbatim>\<open>_generate_price_history\<close>; the loop state is
  (price\_history, current\_price, current\_date).
\<close>

definition price_change :: "price_entry list \<times> rat \<times> int \<Rightarrow> rng \<Rightarrow>
    py_error + ((price_entry list \<times> rat \<times> int) \<times> rng)" where
  "price_change st g =
     (case st of (price_history, current_price, current_date) \<Rightarrow>
      (case randint 7 45 g of
         Inl e \<Rightarrow> Inl e
       | Inr (days_forward, g1) \<Rightarrow>
          (let current_date' = current_date + timedelta_days days_forward in
           (case choices_w [''promotion'', ''market_adjustment'', ''cost_increase'',
                            ''clearance'', ''restock'']
                           [3 / 10, 1 / 4, 1 / 5, 3 / 20, 1 / 10] g1 of
              (change_type, g2) \<Rightarrow>
               (case (if change_type = ''promotion'' then uniform (7 / 10) (9 / 10) g2
                      else if change_type = ''clearance'' then uniform (1 / 2) (4 / 5) g2
                      else if change_type = ''cost_increase'' then uniform (21 / 20) (5 / 4) g2
                      else uniform (9 / 10) (11 / 10) g2) of
                  (change_factor, g3) \<Rightarrow>
                   (let current_price' = py_round (current_price * change_factor) 2 in
                    Inr ((price_history @
                            [\<lparr>price = current_price', date = current_date',
                              reason = change_type\<rparr>],
                          current_price', current_date'), g3)))))))"

fun price_changes :: "nat \<Rightarrow> price_entry list \<times> rat \<times> int \<Rightarrow> rng \<Rightarrow>
    py_error + ((price_entry list \<times> rat \<times> int) \<times> rng)" where
  "price_changes 0 st g = Inr (st, g)"
| "price_changes (Suc n) st g =
     (case price_change st g of
        Inl e \<Rightarrow> Inl e
      | Inr (st', g1) \<Rightarrow> price_changes n st' g1)"

definition generate_price_history :: "rat \<Rightarrow> int \<Rightarrow> rng \<Rightarrow>
    py_error + (price_entry list \<times> rng)" where
  "generate_price_history base_price start_date g =
     (let price_history = [\<lparr>price = base_price, date = start_date,
                             reason = ''initial_listing''\<rparr>] in
      (case randint 0 4 g of
         Inl e \<Rightarrow> Inl e
       | Inr (num_changes, g1) \<Rightarrow>
          (case price_changes (nat num_changes) (price_history, base_price, start_date) g1 of
             Inl e \<Rightarrow> Inl e
           | Inr ((price_history', _, _), g2) \<Rightarrow> Inr (price_history', g2))))"

text \<open>Consecutive entries are 7 to 45 days apart.\<close>

definition spaced :: "int \<Rightarrow> int \<Rightarrow> bool" where
  "spaced d d' = (d + timedelta_days 7 \<le> d' \<and> d' \<le> d + timedelta_days 45)"

subsection \<open>The data model\<close>

text \<open>
  The dictionaries of the source as records, with the fields that the transaction stage,
  the session stage and the summary read (stock, prices, flags, ratings, aggregates,
  references) and the price history. Left out: the fields drawn by Faker (names,
  addresses, e-mail, dates relative to now), the ids made by \<^verbatim>\<open>uuid.uuid4()\<close>, and
  the remaining decorative fields (SKU, brand, tags, dimensions, device, referrer).
\<close>

record subcategory =
  subcategory_id :: "nat \<times> nat"
  sub_name :: string
  profit_margin :: rat
  commission_rate :: rat

record category =
  category_id :: nat
  cat_name :: string
  cat_is_active :: bool
  subcategories :: "subcategory list"

record product =
  product_id :: nat
  prod_category_id :: nat
  prod_subcategory_id :: "nat \<times> nat"
  base_price :: rat
  cost :: rat
  current_stock :: int
  reorder_level :: int
  prod_is_active :: bool
  rating :: rat
  review_count :: int
  price_history :: "price_entry list"

record user =
  user_id :: nat
  preferred_categories :: "nat list"
  account_status :: string
  total_orders :: int
  lifetime_value :: rat

record item =
  item_product_id :: nat
  quantity :: int
  unit_price :: rat
  item_subtotal :: rat

record transaction =
  txn_user_id :: nat
  items :: "item list"
  subtotal :: rat
  discount :: rat
  tax :: rat
  shipping :: rat
  txn_total :: rat
  payment_method :: string
  status :: string

record session =
  sess_user_id :: nat
  duration_seconds :: int
  pages_viewed :: int
  products_viewed :: "nat list"
  conversion_status :: string

record config =
  NUM_USERS :: nat
  NUM_PRODUCTS :: nat
  NUM_CATEGORIES :: nat
  NUM_TRANSACTIONS :: nat
  NUM_SESSIONS :: nat
  TIMESPAN_DAYS :: nat
  CHUNK_SIZE :: nat

record gen_state =
  categories :: "category list"
  products :: "product list"
  users :: "user list"
  sessions :: "session list"
  transactions :: "transaction list"

definition init_state :: gen_state where
  "init_state = \<lparr>categories = [], products = [], users = [], sessions = [],
                  transactions = []\<rparr>"

text \<open>\<^verbatim>\<open>random.choice\<close> on a literal, hence non-empty, list \<open>x # xs\<close>.\<close>

definition choice_lit :: "'a \<Rightarrow> 'a list \<Rightarrow> rng \<Rightarrow> 'a \<times> rng" where
  "choice_lit x xs g = (case draw g of (r, g1) \<Rightarrow> ((x # xs) ! (r mod Suc (length xs)), g1))"

subsection \<open>generate\_categories\<close>

definition category_data :: "(string \<times> string list) list" where
  "category_data =
     [(''Electronics'', [''Smartphones'', ''Laptops'', ''Headphones'', ''Cameras'', ''Gaming'']),
      (''Clothing'', [''Men's Wear'', ''Women's Wear'', ''Kids'', ''Shoes'', ''Accessories'']),
      (''Home & Garden'', [''Furniture'', ''Kitchen'', ''Decor'', ''Tools'', ''Lighting'']),
      (''Sports'', [''Fitness'', ''Outdoor'', ''Team Sports'', ''Water Sports'', ''Winter Sports'']),
      (''Books'', [''Fiction'', ''Non-Fiction'', ''Educational'', ''Children's'', ''Comics'']),
      (''Health & Beauty'', [''Skincare'', ''Makeup'', ''Supplements'', ''Personal Care'',
                             ''Fragrances'']),
      (''Automotive'', [''Parts'', ''Accessories'', ''Tools'', ''Care Products'', ''Electronics'']),
      (''Toys & Games'', [''Educational'', ''Action Figures'', ''Board Games'', ''Puzzles'',
                          ''Outdoor'']),
      (''Jewelry'', [''Rings'', ''Necklaces'', ''Earrings'', ''Watches'', ''Bracelets'']),
      (''Food & Beverages'', [''Snacks'', ''Beverages'', ''Organic'', ''International'',
                              ''Gourmet''])]"

fun generate_subcategories :: "nat \<Rightarrow> nat \<Rightarrow> string list \<Rightarrow> rng \<Rightarrow> subcategory list \<times> rng" where
  "generate_subcategories cat_id sub_id [] g = ([], g)"
| "generate_subcategories cat_id sub_id (subcat_name # rest) g =
     (case uniform (3 / 20) (9 / 20) g of (pm, g1) \<Rightarrow>
      (case uniform (3 / 100) (3 / 25) g1 of (cr, g2) \<Rightarrow>
       (case generate_subcategories cat_id (Suc sub_id) rest g2 of (scs, g3) \<Rightarrow>
          (\<lparr>subcategory_id = (cat_id, sub_id), sub_name = subcat_name,
            profit_margin = py_round pm 3, commission_rate = py_round cr 3\<rparr> # scs, g3))))"

fun generate_categories_loop :: "nat \<Rightarrow> (string \<times> string list) list \<Rightarrow> rng \<Rightarrow>
    category list \<times> rng" where
  "generate_categories_loop cat_id [] g = ([], g)"
| "generate_categories_loop cat_id ((main_cat, subcats) # rest) g =
     (case choices_w [True, False] [19 / 20, 1 / 20] g of (active, g1) \<Rightarrow>
      (case generate_subcategories cat_id 0 subcats g1 of (scs, g2) \<Rightarrow>
       (case generate_categories_loop (Suc cat_id) rest g2 of (cs, g3) \<Rightarrow>
          (\<lparr>category_id = cat_id, cat_name = main_cat, cat_is_active = active,
            subcategories = scs\<rparr> # cs, g3))))"

definition generate_categories :: "config \<Rightarrow> gen_state \<Rightarrow> rng \<Rightarrow> gen_state \<times> rng" where
  "generate_categories cfg s g =
     (case generate_categories_loop 0 (take (NUM_CATEGORIES cfg) category_data) g of
        (cs, g1) \<Rightarrow> (s\<lparr>categories := categories s @ cs\<rparr>, g1))"

subsection \<open>generate\_products\<close>

definition price_ranges :: "(string \<times> rat \<times> rat) list" where
  "price_ranges =
     [(''Electronics'', (50, 2000)), (''Clothing'', (15, 300)), (''Home & Garden'', (25, 800)),
      (''Sports'', (20, 500)), (''Books'', (5, 50)), (''Health & Beauty'', (10, 150)),
      (''Automotive'', (15, 400)), (''Toys & Games'', (8, 200)), (''Jewelry'', (30, 1000)),
      (''Food & Beverages'', (3, 80))]"

definition generate_product :: "category list \<Rightarrow> int \<Rightarrow> nat \<Rightarrow> rng \<Rightarrow> py_error + (product \<times> rng)" where
  "generate_product cats product_creation_start prod_id g =
     (case choice cats g of
        Inl e \<Rightarrow> Inl e
      | Inr (category, g1) \<Rightarrow>
     (case choice (subcategories category) g1 of
        Inl e \<Rightarrow> Inl e
      | Inr (subcategory, g2) \<Rightarrow>
     (case (case map_of price_ranges (cat_name category) of
              None \<Rightarrow> (10, 100) | Some r \<Rightarrow> r) of
        (min_price, max_price) \<Rightarrow>
     (case uniform min_price max_price g2 of (bp, g3) \<Rightarrow>
     (case generate_price_history (py_round bp 2) product_creation_start g3 of
        Inl e \<Rightarrow> Inl e
      | Inr (ph, g4) \<Rightarrow>
     (let current_price = price (last ph) in
     (case randint 0 1000 g4 of
        Inl e \<Rightarrow> Inl e
      | Inr (stock, g5) \<Rightarrow>
     (case randint 10 50 g5 of
        Inl e \<Rightarrow> Inl e
      | Inr (reorder, g6) \<Rightarrow>
     (case choices_w [True, False] [23 / 25, 2 / 25] g6 of (active, g7) \<Rightarrow>
     (case uniform 1 5 g7 of (rt, g8) \<Rightarrow>
     (case randint 0 500 g8 of
        Inl e \<Rightarrow> Inl e
      | Inr (reviews, g9) \<Rightarrow>
        Inr (\<lparr>product_id = prod_id,
              prod_category_id = category_id category,
              prod_subcategory_id = subcategory_id subcategory,
              base_price = current_price,
              cost = py_round (current_price * (1 - profit_margin subcategory)) 2,
              current_stock = stock,
              reorder_level = reorder,
              prod_is_active = active,
              rating = py_round rt 1,
              review_count = reviews,
              price_history = ph\<rparr>, g9))))))))))))"

fun generate_products_loop :: "nat \<Rightarrow> nat \<Rightarrow> int \<Rightarrow> gen_state \<Rightarrow> rng \<Rightarrow>
    py_error + (gen_state \<times> rng)" where
  "generate_products_loop 0 prod_id start s g = Inr (s, g)"
| "generate_products_loop (Suc n) prod_id start s g =
     (case generate_product (categories s) start prod_id g of
        Inl e \<Rightarrow> Inl e
      | Inr (p, g1) \<Rightarrow>
          generate_products_loop n (Suc prod_id) start (s\<lparr>products := products s @ [p]\<rparr>) g1)"

text \<open>\<open>now\<close> is the reading of \<^verbatim>\<open>datetime.datetime.now()\<close>.\<close>

definition generate_products :: "config \<Rightarrow> int \<Rightarrow> gen_state \<Rightarrow> rng \<Rightarrow> py_error + (gen_state \<times> rng)" where
  "generate_products cfg now s g =
     generate_products_loop (NUM_PRODUCTS cfg) 0
       (now - timedelta_days (int (TIMESPAN_DAYS cfg) * 2)) s g"

subsection \<open>generate\_users\<close>

definition generate_user :: "category list \<Rightarrow> nat \<Rightarrow> rng \<Rightarrow> py_error + (user \<times> rng)" where
  "generate_user cats uid g =
     (case randint 1 5 g of
        Inl e \<Rightarrow> Inl e
      | Inr (k, g1) \<Rightarrow>
     (case sample (map category_id (filter cat_is_active cats)) (nat k) g1 of
        Inl e \<Rightarrow> Inl e
      | Inr (prefs, g2) \<Rightarrow>
     (case choices_w [''active'', ''inactive'', ''suspended''] [17 / 20, 7 / 50, 1 / 100] g2 of
        (acct, g3) \<Rightarrow>
        Inr (\<lparr>user_id = uid, preferred_categories = prefs, account_status = acct,
              total_orders = 0, lifetime_value = 0\<rparr>, g3))))"

fun generate_users_loop :: "nat \<Rightarrow> nat \<Rightarrow> gen_state \<Rightarrow> rng \<Rightarrow> py_error + (gen_state \<times> rng)" where
  "generate_users_loop 0 uid s g = Inr (s, g)"
| "generate_users_loop (Suc n) uid s g =
     (case generate_user (categories s) uid g of
        Inl e \<Rightarrow> Inl e
      | Inr (u, g1) \<Rightarrow> generate_users_loop n (Suc uid) (s\<lparr>users := users s @ [u]\<rparr>) g1)"

definition generate_users :: "config \<Rightarrow> gen_state \<Rightarrow> rng \<Rightarrow> py_error + (gen_state \<times> rng)" where
  "generate_users cfg s g = generate_users_loop (NUM_USERS cfg) 0 s g"

subsection \<open>\_generate\_simple\_transactions\<close>

text \<open>
  \<^verbatim>\<open>[p for p in self.products if p["is_active"] and p["current_stock"] > 0]\<close> is a
  list of references into \<^verbatim>\<open>self.products\<close>: here, the list of their positions.
\<close>

definition available_products :: "product list \<Rightarrow> nat list" where
  "available_products ps =
     filter (\<lambda>i. prod_is_active (ps ! i) \<and> 0 < current_stock (ps ! i)) [0..<length ps]"

text \<open>
  The body of \<^verbatim>\<open>for product in selected_products\<close>; the loop state is
  (products, items, subtotal). The stock is read when the quantity is drawn and written
  back at once.
\<close>

definition add_item :: "product list \<times> item list \<times> rat \<Rightarrow> nat \<Rightarrow> rng \<Rightarrow>
    py_error + ((product list \<times> item list \<times> rat) \<times> rng)" where
  "add_item st pidx g =
     (case st of (ps, its, sub) \<Rightarrow>
      (let product = ps ! pidx in
       (case randint 1 (min 3 (current_stock product)) g of
          Inl e \<Rightarrow> Inl e
        | Inr (q, g1) \<Rightarrow>
           (let up = base_price product;
                item_sub = of_int q * up
            in Inr ((ps[pidx := product\<lparr>current_stock := current_stock product - q\<rparr>],
                     its @ [\<lparr>item_product_id = product_id product, quantity = q,
                             unit_price = up, item_subtotal = py_round item_sub 2\<rparr>],
                     sub + item_sub), g1)))))"

fun add_items :: "product list \<times> item list \<times> rat \<Rightarrow> nat list \<Rightarrow> rng \<Rightarrow>
    py_error + ((product list \<times> item list \<times> rat) \<times> rng)" where
  "add_items st [] g = Inr (st, g)"
| "add_items st (pidx # sel) g =
     (case add_item st pidx g of
        Inl e \<Rightarrow> Inl e
      | Inr (st', g1) \<Rightarrow> add_items st' sel g1)"

text \<open>Discount, tax, shipping and total of a transaction, from the running subtotal.\<close>

definition price_transaction :: "rat \<Rightarrow> rng \<Rightarrow> (rat \<times> rat \<times> rat \<times> rat) \<times> rng" where
  "price_transaction sub g =
     (case py_random g of (u, g1) \<Rightarrow>
      (case (if u < 1 / 4
             then (case choice_lit (1 / 20) [1 / 10, 3 / 20, 1 / 5] g1 of
                     (discount_rate, g2) \<Rightarrow> (py_round (sub * discount_rate) 2, g2))
             else (0, g1)) of
         (disc, g3) \<Rightarrow>
          (let tx = py_round (sub * (2 / 25)) 2;
               ship = (if 50 < sub then 0 else 999 / 100);
               tot = py_round (sub - disc + tx + ship) 2
           in ((disc, tx, ship, tot), g3))))"

text \<open>
  \<^verbatim>\<open>[u for u in self.users if u["account_status"] == "active"]\<close>, again a list of
  references: the positions of the active users.
\<close>

definition active_user_refs :: "user list \<Rightarrow> nat list" where
  "active_user_refs us =
     filter (\<lambda>i. account_status (us ! i) = ''active'') [0..<length us]"

definition draw_num_items :: "rng \<Rightarrow> nat \<times> rng" where
  "draw_num_items g = choices_w [1, 2, 3, 4, 5] [2 / 5, 3 / 10, 3 / 20, 1 / 10, 1 / 20] g"

text \<open>One pass of the loop of \<^verbatim>\<open>_generate_simple_transactions\<close>.\<close>

definition txn_attempt :: "gen_state \<Rightarrow> rng \<Rightarrow> py_error + (gen_state \<times> rng)" where
  "txn_attempt s g =
     (case choice (active_user_refs (users s)) g of
        Inl e \<Rightarrow> Inl e
      | Inr (ui, g1) \<Rightarrow>
     (case draw_num_items g1 of
        (num_items, g2) \<Rightarrow>
     (let available = available_products (products s) in
      if length available < num_items then Inr (s, g2)
      else
     (case sample available num_items g2 of
        Inl e \<Rightarrow> Inl e
      | Inr (selected_products, g3) \<Rightarrow>
     (case add_items (products s, [], 0) selected_products g3 of
        Inl e \<Rightarrow> Inl e
      | Inr ((ps', its, sub), g4) \<Rightarrow>
     (case price_transaction sub g4 of ((disc, tx, ship, tot), g5) \<Rightarrow>
     (case choice_lit ''credit_card'' [''debit_card'', ''paypal'', ''apple_pay'',
                       ''google_pay'', ''bank_transfer'', ''gift_card''] g5 of
        (pm, g6) \<Rightarrow>
     (case choices_w [''completed'', ''processing'', ''shipped'', ''delivered'', ''cancelled'']
                     [7 / 10, 1 / 10, 1 / 10, 2 / 25, 1 / 50] g6 of
        (st, g7) \<Rightarrow>
        (let user = users s ! ui;
             t = \<lparr>txn_user_id = user_id user, items = its, subtotal = py_round sub 2,
                  discount = disc, tax = tx, shipping = ship, txn_total = tot,
                  payment_method = pm, status = st\<rparr>
         in Inr (s\<lparr>products := ps',
                   transactions := transactions s @ [t],
                   users := (users s)[ui := user\<lparr>total_orders := total_orders user + 1,
                                               lifetime_value := lifetime_value user + tot\<rparr>]\<rparr>,
                 g7))))))))))"

fun generate_transactions_loop :: "nat \<Rightarrow> gen_state \<Rightarrow> rng \<Rightarrow> py_error + (gen_state \<times> rng)" where
  "generate_transactions_loop 0 s g = Inr (s, g)"
| "generate_transactions_loop (Suc n) s g =
     (case txn_attempt s g of
        Inl e \<Rightarrow> Inl e
      | Inr (s', g1) \<Rightarrow> generate_transactions_loop n s' g1)"

definition generate_simple_transactions :: "config \<Rightarrow> gen_state \<Rightarrow> rng \<Rightarrow>
    py_error + (gen_state \<times> rng)" where
  "generate_simple_transactions cfg s g =
     generate_transactions_loop (NUM_TRANSACTIONS cfg) s g"

subsection \<open>\_generate\_simple\_sessions\<close>

definition session_attempt :: "gen_state \<Rightarrow> rng \<Rightarrow> py_error + (gen_state \<times> rng)" where
  "session_attempt s g =
     (case choice (users s) g of
        Inl e \<Rightarrow> Inl e
      | Inr (user, g1) \<Rightarrow>
     (case randint 30 3600 g1 of
        Inl e \<Rightarrow> Inl e
      | Inr (dur, g2) \<Rightarrow>
     (case randint 1 15 g2 of
        Inl e \<Rightarrow> Inl e
      | Inr (pages, g3) \<Rightarrow>
     (case randint 0 5 g3 of
        Inl e \<Rightarrow> Inl e
      | Inr (k, g4) \<Rightarrow>
     (case sample (map product_id (take 100 (products s))) (nat k) g4 of
        Inl e \<Rightarrow> Inl e
      | Inr (viewed, g5) \<Rightarrow>
     (case choices_w [''converted'', ''abandoned'', ''browsed''] [3 / 100, 3 / 20, 41 / 50] g5 of
        (cs, g6) \<Rightarrow>
        Inr (s\<lparr>sessions := sessions s @
                   [\<lparr>sess_user_id = user_id user, duration_seconds = dur,
                     pages_viewed = pages, products_viewed = viewed,
                     conversion_status = cs\<rparr>]\<rparr>, g6)))))))"

fun generate_sessions_loop :: "nat \<Rightarrow> gen_state \<Rightarrow> rng \<Rightarrow> py_error + (gen_state \<times> rng)" where
  "generate_sessions_loop 0 s g = Inr (s, g)"
| "generate_sessions_loop (Suc n) s g =
     (case session_attempt s g of
        Inl e \<Rightarrow> Inl e
      | Inr (s', g1) \<Rightarrow> generate_sessions_loop n s' g1)"

definition generate_simple_sessions :: "config \<Rightarrow> gen_state \<Rightarrow> rng \<Rightarrow>
    py_error + (gen_state \<times> rng)" where
  "generate_simple_sessions cfg s g = generate_sessions_loop (NUM_SESSIONS cfg) s g"

subsection \<open>\_generate\_summary\<close>

record summary =
  timestamp :: int
  configuration :: config
  vol_categories :: nat
  vol_products :: nat
  vol_users :: nat
  vol_sessions :: nat
  vol_transactions :: nat
  total_records :: nat
  total_revenue :: rat
  average_transaction_value :: rat
  conversion_rate :: rat
  active_products :: nat
  active_users :: nat
  average_product_rating :: rat
  total_inventory_value :: rat
  products_with_reviews :: nat
  users_with_preferences :: nat
  transactions_with_discounts :: nat

text \<open>\<^verbatim>\<open>a / b\<close>: ZeroDivisionError when \<open>b\<close> is zero.\<close>

definition py_div :: "rat \<Rightarrow> rat \<Rightarrow> py_error + rat" where
  "py_div a b = (if b = 0 then Inl ZeroDivisionError else Inr (a / b))"

text \<open>
  The summary dictionary; \<open>now\<close> is the reading of \<^verbatim>\<open>datetime.datetime.now()\<close> when
  it is built. The two guarded quotients are conditional expressions of the source
  (\<^verbatim>\<open>x / len(l) if l else 0\<close>); the rating average is divided without a guard.
\<close>

definition generate_summary :: "config \<Rightarrow> gen_state \<Rightarrow> int \<Rightarrow> py_error + summary" where
  "generate_summary cfg s now =
     (let revenue = sum_list (map txn_total (transactions s)) in
      (case (if transactions s \<noteq> []
             then py_div revenue (of_nat (length (transactions s))) else Inr 0) of
         Inl e \<Rightarrow> Inl e
       | Inr avg_transaction \<Rightarrow>
      (case (if sessions s \<noteq> []
             then py_div (of_nat (length (transactions s))) (of_nat (length (sessions s)))
             else Inr 0) of
         Inl e \<Rightarrow> Inl e
       | Inr conv \<Rightarrow>
      (case py_div (sum_list (map rating (products s))) (of_nat (length (products s))) of
         Inl e \<Rightarrow> Inl e
       | Inr avg_rating \<Rightarrow>
         Inr \<lparr>timestamp = now,
              configuration = cfg,
              vol_categories = length (categories s),
              vol_products = length (products s),
              vol_users = length (users s),
              vol_sessions = length (sessions s),
              vol_transactions = length (transactions s),
              total_records = length (categories s) + length (products s) + length (users s)
                              + length (sessions s) + length (transactions s),
              total_revenue = py_round revenue 2,
              average_transaction_value = py_round avg_transaction 2,
              conversion_rate = py_round (conv * 100) 2,
              active_products = length (filter prod_is_active (products s)),
              active_users = length (filter (\<lambda>u. account_status u = ''active'') (users s)),
              average_product_rating = py_round avg_rating 2,
              total_inventory_value =
                sum_list (map (\<lambda>p. base_price p * of_int (current_stock p)) (products s)),
              products_with_reviews = length (filter (\<lambda>p. 0 < review_count p) (products s)),
              users_with_preferences =
                length (filter (\<lambda>u. preferred_categories u \<noteq> []) (users s)),
              transactions_with_discounts =
                length (filter (\<lambda>t. 0 < discount t) (transactions s))\<rparr>))))"

subsection \<open>generate\_all\<close>

text \<open>
  The stages in sequence. The result is what \<^verbatim>\<open>save_data\<close> writes: the five
  collections (one JSON document each, the sessions cut into chunks) and the summary.
  \<open>now\<close> is the clock reading of the product stage, \<open>now'\<close> that of the summary.
\<close>

definition generate_all :: "config \<Rightarrow> rng \<Rightarrow> int \<Rightarrow> int \<Rightarrow> py_error + (gen_state \<times> summary)" where
  "generate_all cfg g now now' =
     (case generate_categories cfg init_state g of (s1, g1) \<Rightarrow>
      (case generate_products cfg now s1 g1 of
         Inl e \<Rightarrow> Inl e
       | Inr (s2, g2) \<Rightarrow>
      (case generate_users cfg s2 g2 of
         Inl e \<Rightarrow> Inl e
       | Inr (s3, g3) \<Rightarrow>
      (case generate_simple_transactions cfg s3 g3 of
         Inl e \<Rightarrow> Inl e
       | Inr (s4, g4) \<Rightarrow>
      (case generate_simple_sessions cfg s4 g4 of
         Inl e \<Rightarrow> Inl e
       | Inr (s5, g5) \<Rightarrow>
      (case generate_summary cfg s5 now' of
         Inl e \<Rightarrow> Inl e
       | Inr sm \<Rightarrow> Inr (s5, sm)))))))"

subsection \<open>Specification predicates\<close>

text \<open>
  A price history as the product table requires it: non-empty, the first entry an initial
  listing, each entry 7 to 45 days after the one before, the dates non-decreasing.
\<close>

definition chronological :: "price_entry list \<Rightarrow> bool" where
  "chronological ph =
     (ph \<noteq> [] \<and> reason (hd ph) = ''initial_listing''
      \<and> successively spaced (map date ph) \<and> sorted (map date ph))"

text \<open>
  An item \<open>it\<close> bought from a product that was \<open>p\<close> when it was selected and is \<open>p'\<close>
  afterwards: the item names the product, its quantity lies between 1 and
  \<open>min(3, stock)\<close>, and the stock went down by exactly the quantity.
\<close>

definition purchase_ok :: "product \<Rightarrow> product \<Rightarrow> item \<Rightarrow> bool" where
  "purchase_ok p p' it =
     (item_product_id it = product_id p \<and> 1 \<le> quantity it
      \<and> quantity it \<le> min 3 (current_stock p)
      \<and> current_stock p' = current_stock p - quantity it)"



text \<open>
  The products a session may view: a sample (elements at pairwise distinct positions) of
  at most five ids among the first 100 products, or all of them when there are fewer.
\<close>

definition viewed_ok :: "product list \<Rightarrow> session \<Rightarrow> bool" where
  "viewed_ok ps ses =
     (\<exists>idx. distinct idx \<and> length idx \<le> 5 \<and> set idx \<subseteq> {..<min 100 (length ps)}
         \<and> products_viewed ses = map (\<lambda>i. product_id (ps ! i)) idx)"




subsection \<open>Example inputs\<close>

text \<open>A small catalogue, one active user, and the random source whose draws are all 0.\<close>

definition rng0 :: rng where
  "rng0 = (\<lambda>_. 0, 0)"

definition example_config :: config where
  "example_config = \<lparr>NUM_USERS = 1, NUM_PRODUCTS = 1, NUM_CATEGORIES = 1,
     NUM_TRANSACTIONS = 1, NUM_SESSIONS = 1, TIMESPAN_DAYS = 30, CHUNK_SIZE = 10\<rparr>"

definition example_product :: product where
  "example_product = \<lparr>product_id = 0, prod_category_id = 0, prod_subcategory_id = (0, 0),
     base_price = 10, cost = 7, current_stock = 2, reorder_level = 10,
     prod_is_active = True, rating = 4, review_count = 1,
     price_history = [\<lparr>price = 10, date = 0, reason = ''initial_listing''\<rparr>]\<rparr>"

definition example_user :: user where
  "example_user = \<lparr>user_id = 0, preferred_categories = [0], account_status = ''active'',
     total_orders = 0, lifetime_value = 0\<rparr>"

definition example_state :: gen_state where
  "example_state = \<lparr>categories = [], products = [example_product],
     users = [example_user], sessions = [], transactions = []\<rparr>"

text \<open>The transaction that the first attempt makes from there, and the state it leaves.\<close>

definition example_transaction :: transaction where
  "example_transaction = \<lparr>txn_user_id = 0,
     items = [\<lparr>item_product_id = 0, quantity = 1, unit_price = 10, item_subtotal = 10\<rparr>],
     subtotal = 10, discount = 1 / 2, tax = 4 / 5, shipping = 999 / 100,
     txn_total = 2029 / 100, payment_method = ''credit_card'', status = ''completed''\<rparr>"

definition example_state_after :: gen_state where
  "example_state_after = \<lparr>categories = [],
     products = [example_product\<lparr>current_stock := 1\<rparr>],
     users = [example_user\<lparr>total_orders := 1, lifetime_value := 2029 / 100\<rparr>],
     sessions = [], transactions = [example_transaction]\<rparr>"




text \<open>
  A whole run: the example configuration, the source whose sixteenth draw (the stock of
  the only product) is 2 and whose other draws are 0, the product stage at clock reading
  \<open>now\<close> and the summary at \<open>now'\<close>.
\<close>

definition rng_run :: rng where
  "rng_run = (\<lambda>i. if i = 15 then 2 else 0, 0)"

definition run_state :: "int \<Rightarrow> gen_state" where
  "run_state now = \<lparr>categories =
       [\<lparr>category_id = 0, cat_name = ''Electronics'', cat_is_active = True,
         subcategories =
           [\<lparr>subcategory_id = (0, 0), sub_name = ''Smartphones'',
              profit_margin = 3 / 20, commission_rate = 3 / 100\<rparr>,
            \<lparr>subcategory_id = (0, 1), sub_name = ''Laptops'',
              profit_margin = 3 / 20, commission_rate = 3 / 100\<rparr>,
            \<lparr>subcategory_id = (0, 2), sub_name = ''Headphones'',
              profit_margin = 3 / 20, commission_rate = 3 / 100\<rparr>,
            \<lparr>subcategory_id = (0, 3), sub_name = ''Cameras'',
              profit_margin = 3 / 20, commission_rate = 3 / 100\<rparr>,
            \<lparr>subcategory_id = (0, 4), sub_name = ''Gaming'',
              profit_margin = 3 / 20, commission_rate = 3 / 100\<rparr>]\<rparr>],
     products =
       [\<lparr>product_id = 0, prod_category_id = 0, prod_subcategory_id = (0, 0),
         base_price = 50, cost = 85 / 2, current_stock = 1, reorder_level = 10,
         prod_is_active = True, rating = 1, review_count = 0,
         price_history = [\<lparr>price = 50, date = now - 5184000000000,
                            reason = ''initial_listing''\<rparr>]\<rparr>],
     users =
       [\<lparr>user_id = 0, preferred_categories = [0], account_status = ''active'',
         total_orders = 1, lifetime_value = 6149 / 100\<rparr>],
     sessions =
       [\<lparr>sess_user_id = 0, duration_seconds = 30, pages_viewed = 1,
         products_viewed = [], conversion_status = ''converted''\<rparr>],
     transactions =
       [\<lparr>txn_user_id = 0,
         items = [\<lparr>item_product_id = 0, quantity = 1, unit_price = 50,
                   item_subtotal = 50\<rparr>],
         subtotal = 50, discount = 5 / 2, tax = 4, shipping = 999 / 100,
         txn_total = 6149 / 100, payment_method = ''credit_card'',
         status = ''completed''\<rparr>]\<rparr>"

definition run_summary :: "int \<Rightarrow> summary" where
  "run_summary now' = \<lparr>timestamp = now', configuration = example_config,
     vol_categories = 1, vol_products = 1, vol_users = 1, vol_sessions = 1,
     vol_transactions = 1, total_records = 5, total_revenue = 6149 / 100,
     average_transaction_value = 6149 / 100, conversion_rate = 100,
     active_products = 1, active_users = 1, average_product_rating = 1,
     total_inventory_value = 50, products_with_reviews = 0,
     users_with_preferences = 1, transactions_with_discounts = 1\<rparr>"

text \<open>The example state with its only product sold out, and with its only user inactive.\<close>

definition sold_out_state :: gen_state where
  "sold_out_state = example_state\<lparr>products := [example_product\<lparr>current_stock := 0\<rparr>]\<rparr>"

definition inactive_state :: gen_state where
  "inactive_state = example_state\<lparr>users := [example_user\<lparr>account_status := ''inactive''\<rparr>]\<rparr>"

text \<open>A source whose fourth draw is 1: the session made from the example state views one product.\<close>

definition rng_view :: rng where
  "rng_view = (\<lambda>i. if i = 3 then 1 else 0, 0)"

definition viewing_state :: gen_state where
  "viewing_state = example_state\<lparr>sessions :=
     [\<lparr>sess_user_id = 0, duration_seconds = 30, pages_viewed = 1, products_viewed = [0],
       conversion_status = ''converted''\<rparr>]\<rparr>"

text \<open>
  A run with two categories: 22 draws make the categories, 9 the product, and the next
  one is \<^verbatim>\<open>random.randint(1, 5)\<close> of the first user; the source makes it 3.
\<close>

definition two_categories_config :: config where
  "two_categories_config = example_config\<lparr>NUM_CATEGORIES := 2\<rparr>"

definition rng_three :: rng where
  "rng_three = (\<lambda>i. if i = 31 then 2 else 0, 0)"

text \<open>
  A source whose first draw is 1: the price history drawn from it has one change, a
  promotion seven days after the listing.
\<close>

definition rng_hist :: rng where
  "rng_hist = (\<lambda>i. if i = 0 then 1 else 0, 0)"

definition example_history :: "price_entry list" where
  "example_history =
     [\<lparr>price = 10, date = 0, reason = ''initial_listing''\<rparr>,
      \<lparr>price = 7, date = 604800000000, reason = ''promotion''\<rparr>]"

subsection \<open>Facts about the random source\<close>

lemma randint_range:
  "randint a b g = Inr (x, g1) \<Longrightarrow> a \<le> x \<and> x \<le> b"
proof -
  assume h: "randint a b g = Inr (x, g1)"
  then have ab: "a \<le> b"
    by (auto simp: randint_def split: if_splits)
  obtain r where x: "x = a + int (r mod nat (b - a + 1))"
    using h ab by (auto simp: randint_def split: if_splits prod.splits)
  have "0 < nat (b - a + 1)" using ab by simp
  then have "r mod nat (b - a + 1) < nat (b - a + 1)" by (rule mod_less_divisor)
  then show ?thesis using x ab by linarith
qed

lemma randint_succeeds:
  "a \<le> b \<Longrightarrow> \<exists>x g1. randint a b g = Inr (x, g1)"
  by (simp add: randint_def split: prod.splits)

lemma randint_error:
  "randint a b g = Inl e \<Longrightarrow> b < a \<and> e = ValueError"
  by (auto simp: randint_def split: if_splits prod.splits)

subsection \<open>Price history: non-empty, initial listing first, chronological\<close>

lemma price_change_inv:
  assumes "price_change (ph, cp, cd) g = Inr ((ph', cp', cd'), g1)"
    and "ph \<noteq> []" and "date (last ph) = cd"
    and "successively spaced (map date ph)"
  shows "ph' \<noteq> [] \<and> date (last ph') = cd' \<and> successively spaced (map date ph')
         \<and> hd ph' = hd ph"
proof -
  from assms(1) obtain d g0 e where
    d: "randint 7 45 g = Inr (d, g0)" and
    ph': "ph' = ph @ [e]" and e: "date e = cd + timedelta_days d" and cd': "cd' = date e"
    by (auto simp: price_change_def Let_def split: sum.splits prod.splits)
  from randint_range[OF d] have "7 \<le> d \<and> d \<le> 45" .
  then have sp: "spaced cd (date e)"
    by (simp add: spaced_def e timedelta_days_def)
  have "successively spaced (map date ph @ [date e])"
    using assms(2,3,4) sp
    by (simp add: successively_append_iff last_map)
  then show ?thesis
    using ph' cd' assms(2) by simp
qed

lemma price_changes_inv:
  "price_changes n (ph, cp, cd) g = Inr ((ph', cp', cd'), g1) \<Longrightarrow>
   ph \<noteq> [] \<Longrightarrow> date (last ph) = cd \<Longrightarrow> successively spaced (map date ph) \<Longrightarrow>
   ph' \<noteq> [] \<and> successively spaced (map date ph') \<and> hd ph' = hd ph"
proof (induction n arbitrary: ph cp cd g)
  case 0
  then show ?case by simp
next
  case (Suc n)
  from Suc.prems(1) obtain ph1 cp1 cd1 g0 where
    step: "price_change (ph, cp, cd) g = Inr ((ph1, cp1, cd1), g0)" and
    rest: "price_changes n (ph1, cp1, cd1) g0 = Inr ((ph', cp', cd'), g1)"
    by (auto split: sum.splits)
  from price_change_inv[OF step Suc.prems(2,3,4)]
  have inv: "ph1 \<noteq> []" "date (last ph1) = cd1" "successively spaced (map date ph1)"
    "hd ph1 = hd ph" by simp_all
  from Suc.IH[OF rest inv(1,2,3)] inv(4) show ?case by simp
qed

lemma spaced_sorted:
  "successively spaced ds \<Longrightarrow> sorted ds"
proof (induction ds rule: induct_list012)
  case (3 x y zs)
  then have xy: "x \<le> y" and s: "sorted (y # zs)"
    by (simp_all add: spaced_def timedelta_days_def)
  then show ?case by fastforce
qed simp_all

lemma price_change_total:
  "\<exists>st' g1. price_change st g = Inr (st', g1)"
proof -
  obtain ph cp cd where st: "st = (ph, cp, cd)" using prod_cases3 by blast
  obtain d g0 where d: "randint 7 45 g = Inr (d, g0)"
    using randint_succeeds[of 7 45 g] by auto
  show ?thesis
    unfolding price_change_def st
    by (simp add: d Let_def split: prod.split)
qed

lemma price_changes_total:
  "\<exists>st' g1. price_changes n st g = Inr (st', g1)"
proof (induction n arbitrary: st g)
  case 0
  show ?case by (cases st) simp
next
  case (Suc n)
  obtain st1 g2 where "price_change st g = Inr (st1, g2)"
    using price_change_total by blast
  then show ?case using Suc.IH[of st1 g2] by simp
qed

lemma generate_price_history_ok:
  "\<exists>ph g1. generate_price_history bp sd g = Inr (ph, g1) \<and> chronological ph"
proof -
  let ?ph0 = "[\<lparr>price = bp, date = sd, reason = ''initial_listing''\<rparr>]"
  obtain k g0 where k: "randint 0 4 g = Inr (k, g0)"
    using randint_succeeds[of 0 4 g] by auto
  obtain st' g1 where r: "price_changes (nat k) (?ph0, bp, sd) g0 = Inr (st', g1)"
    using price_changes_total by blast
  obtain ph cp cd where st': "st' = (ph, cp, cd)" using prod_cases3 by blast
  have inv: "ph \<noteq> [] \<and> successively spaced (map date ph) \<and> hd ph = hd ?ph0"
    by (rule price_changes_inv[OF r[unfolded st']]) simp_all
  have res: "generate_price_history bp sd g = Inr (ph, g1)"
    by (simp add: generate_price_history_def k r st')
  show ?thesis
    using res inv spaced_sorted[of "map date ph"] by (simp add: chronological_def)
qed

lemma choice_in_set:
  "choice xs g = Inr (x, g1) \<Longrightarrow> x \<in> set xs"
  by (auto simp: choice_def split: if_splits prod.splits)

lemma choice_succeeds:
  "xs \<noteq> [] \<Longrightarrow> \<exists>x g1. choice xs g = Inr (x, g1)"
  by (simp add: choice_def split: prod.splits)

lemma choice_error:
  "choice xs g = Inl e \<Longrightarrow> xs = [] \<and> e = IndexError"
  by (auto simp: choice_def split: if_splits prod.splits)

lemma sample_from_props:
  "k \<le> length pool \<Longrightarrow> sample_from pool k g = (xs, g') \<Longrightarrow>
   length xs = k \<and> set xs \<subseteq> set pool \<and> (distinct pool \<longrightarrow> distinct xs)"
proof (induction k arbitrary: pool g xs g')
  case 0
  then show ?case by simp
next
  case (Suc k)
  obtain r g1 where dr: "draw g = (r, g1)" by (cases "draw g") auto
  define j where "j = r mod length pool"
  define pool' where "pool' = take j pool @ drop (Suc j) pool"
  have "0 < length pool" using Suc.prems(1) by linarith
  then have jlt: "j < length pool" unfolding j_def by (rule mod_less_divisor)
  obtain rest g2 where rest: "sample_from pool' k g1 = (rest, g2)"
    by (cases "sample_from pool' k g1") auto
  have xs: "xs = pool ! j # rest"
    using Suc.prems(2) dr rest by (simp add: Let_def j_def pool'_def)
  have len': "k \<le> length pool'" using Suc.prems(1) jlt by (simp add: pool'_def)
  have split: "pool = take j pool @ pool ! j # drop (Suc j) pool"
    using jlt by (rule id_take_nth_drop)
  have sub': "set pool' \<subseteq> set pool"
    unfolding pool'_def using set_take_subset[of j pool] set_drop_subset[of "Suc j" pool] by auto
  have d': "distinct pool \<Longrightarrow> distinct pool' \<and> pool ! j \<notin> set pool'"
  proof -
    assume "distinct pool"
    then have "distinct (take j pool @ pool ! j # drop (Suc j) pool)" using split by simp
    then show ?thesis unfolding pool'_def by auto
  qed
  from Suc.IH[OF len' rest]
  have ih: "length rest = k" "set rest \<subseteq> set pool'" "distinct pool' \<longrightarrow> distinct rest"
    by simp_all
  show ?case using xs ih sub' d' jlt by auto
qed

lemma sample_props:
  "sample pool k g = Inr (xs, g') \<Longrightarrow>
   length xs = k \<and> k \<le> length pool \<and> set xs \<subseteq> set pool \<and> (distinct pool \<longrightarrow> distinct xs)"
  using sample_from_props[of k pool g xs g']
  by (auto simp: sample_def split: if_splits)

lemma sample_error:
  "sample pool k g = Inl e \<Longrightarrow> length pool < k \<and> e = ValueError"
  by (auto simp: sample_def split: if_splits)

lemma sample_succeeds:
  "k \<le> length pool \<Longrightarrow> \<exists>xs g'. sample pool k g = Inr (xs, g')"
  by (cases "sample_from pool k g") (simp add: sample_def)

subsection \<open>Buying the selected products\<close>

lemma add_item_spec:
  assumes "add_item (ps, its, sub) i g = Inr ((ps', its', sub'), g1)"
  shows "\<exists>it. its' = its @ [it]
           \<and> purchase_ok (ps ! i) ((ps ! i)\<lparr>current_stock := current_stock (ps ! i) - quantity it\<rparr>) it
           \<and> ps' = ps[i := (ps ! i)\<lparr>current_stock := current_stock (ps ! i) - quantity it\<rparr>]"
proof -
  from assms obtain q where
    q: "randint 1 (min 3 (current_stock (ps ! i))) g = Inr (q, g1)" and
    ps': "ps' = ps[i := (ps ! i)\<lparr>current_stock := current_stock (ps ! i) - q\<rparr>]" and
    its': "its' = its @ [\<lparr>item_product_id = product_id (ps ! i), quantity = q,
                          unit_price = base_price (ps ! i),
                          item_subtotal = py_round (of_int q * base_price (ps ! i)) 2\<rparr>]"
    by (auto simp: add_item_def Let_def split: sum.splits)
  from randint_range[OF q] have "1 \<le> q \<and> q \<le> min 3 (current_stock (ps ! i))" .
  then show ?thesis
    using ps' its' by (simp add: purchase_ok_def)
qed

lemma add_item_succeeds:
  assumes "0 < current_stock (ps ! i)"
  shows "\<exists>st' g1. add_item (ps, its, sub) i g = Inr (st', g1)"
proof -
  have "1 \<le> min 3 (current_stock (ps ! i))" using assms by simp
  from randint_succeeds[OF this, of g] obtain q g1 where
    "randint 1 (min 3 (current_stock (ps ! i))) g = Inr (q, g1)" by blast
  then show ?thesis by (simp add: add_item_def Let_def)
qed

lemma add_items_spec:
  "add_items (ps, its, sub) sel g = Inr ((ps', its', sub'), g') \<Longrightarrow>
   distinct sel \<Longrightarrow> \<forall>i\<in>set sel. i < length ps \<Longrightarrow>
   length ps' = length ps
   \<and> (\<exists>new. its' = its @ new \<and> length new = length sel
        \<and> (\<forall>k<length sel. purchase_ok (ps ! (sel ! k)) (ps' ! (sel ! k)) (new ! k)))
   \<and> (\<forall>j. j \<notin> set sel \<longrightarrow> ps' ! j = ps ! j)"
proof (induction sel arbitrary: ps its sub g)
  case Nil
  then show ?case by simp
next
  case (Cons i sel)
  from Cons.prems(1) obtain ps1 its1 sub1 g1 where
    step: "add_item (ps, its, sub) i g = Inr ((ps1, its1, sub1), g1)" and
    rest: "add_items (ps1, its1, sub1) sel g1 = Inr ((ps', its', sub'), g')"
    by (auto split: sum.splits)
  from add_item_spec[OF step] obtain it where
    its1: "its1 = its @ [it]" and
    ok: "purchase_ok (ps ! i) ((ps ! i)\<lparr>current_stock := current_stock (ps ! i) - quantity it\<rparr>) it" and
    ps1: "ps1 = ps[i := (ps ! i)\<lparr>current_stock := current_stock (ps ! i) - quantity it\<rparr>]"
    by blast
  have ilt: "i < length ps" and inot: "i \<notin> set sel" and d: "distinct sel"
    using Cons.prems(2,3) by simp_all
  have rng1: "\<forall>j\<in>set sel. j < length ps1" using Cons.prems(3) ps1 by simp
  from Cons.IH[OF rest d rng1] obtain new1 where
    len: "length ps' = length ps1" and
    its': "its' = its1 @ new1" and lnew: "length new1 = length sel" and
    oks: "\<forall>k<length sel. purchase_ok (ps1 ! (sel ! k)) (ps' ! (sel ! k)) (new1 ! k)" and
    same: "\<forall>j. j \<notin> set sel \<longrightarrow> ps' ! j = ps1 ! j"
    by blast
  have at_i: "ps' ! i = (ps ! i)\<lparr>current_stock := current_stock (ps ! i) - quantity it\<rparr>"
    using same inot ps1 ilt by simp
  have all_ok: "\<forall>k<length (i # sel).
      purchase_ok (ps ! ((i # sel) ! k)) (ps' ! ((i # sel) ! k)) ((it # new1) ! k)"
  proof (intro allI impI)
    fix k assume k: "k < length (i # sel)"
    show "purchase_ok (ps ! ((i # sel) ! k)) (ps' ! ((i # sel) ! k)) ((it # new1) ! k)"
    proof (cases k)
      case 0
      then show ?thesis using ok at_i by simp
    next
      case (Suc k')
      then have k': "k' < length sel" using k by simp
      then have "sel ! k' \<noteq> i" using inot nth_mem by metis
      then have eq: "ps1 ! (sel ! k') = ps ! (sel ! k')" using ps1 by simp
      from oks k' have "purchase_ok (ps1 ! (sel ! k')) (ps' ! (sel ! k')) (new1 ! k')"
        by blast
      then show ?thesis unfolding eq using Suc by simp
    qed
  qed
  have unchanged: "\<forall>j. j \<notin> set (i # sel) \<longrightarrow> ps' ! j = ps ! j"
    using same ps1 by simp
  have "its' = its @ (it # new1) \<and> length (it # new1) = length (i # sel)"
    using its' its1 lnew by simp
  then show ?case using len ps1 all_ok unchanged by auto
qed

lemma add_items_succeeds:
  "distinct sel \<Longrightarrow> \<forall>i\<in>set sel. i < length ps \<and> 0 < current_stock (ps ! i) \<Longrightarrow>
   \<exists>st' g'. add_items (ps, its, sub) sel g = Inr (st', g')"
proof (induction sel arbitrary: ps its sub g)
  case Nil
  show ?case by simp
next
  case (Cons i sel)
  have "0 < current_stock (ps ! i)" using Cons.prems(2) by simp
  from add_item_succeeds[OF this, of its sub g] obtain st1 g1 where
    step: "add_item (ps, its, sub) i g = Inr (st1, g1)" by blast
  obtain ps1 its1 sub1 where st1: "st1 = (ps1, its1, sub1)" using prod_cases3 by blast
  from add_item_spec[OF step[unfolded st1]] obtain it :: item where
    ps1: "ps1 = ps[i := (ps ! i)\<lparr>current_stock := current_stock (ps ! i) - quantity it\<rparr>]"
    by auto
  have inot: "i \<notin> set sel" and d: "distinct sel" using Cons.prems(1) by simp_all
  have pre: "\<forall>j\<in>set sel. j < length ps1 \<and> 0 < current_stock (ps1 ! j)"
  proof
    fix j assume j: "j \<in> set sel"
    then have "j \<noteq> i" using inot by auto
    then show "j < length ps1 \<and> 0 < current_stock (ps1 ! j)"
      using Cons.prems(2) j ps1 by simp
  qed
  from Cons.IH[OF d pre, of its1 sub1 g1] show ?case
    using step st1 by simp
qed

subsection \<open>One transaction attempt\<close>

lemma available_products_iff:
  "i \<in> set (available_products ps) \<longleftrightarrow>
   i < length ps \<and> prod_is_active (ps ! i) \<and> 0 < current_stock (ps ! i)"
  by (auto simp: available_products_def)

lemma distinct_available_products:
  "distinct (available_products ps)"
  by (simp add: available_products_def)

lemma txn_attempt_result:
  assumes "txn_attempt s g = Inr (s', g')"
  shows "s' = s \<or>
    (\<exists>ui sel ps' its sub t g3 g4.
       ui < length (users s) \<and> account_status (users s ! ui) = ''active''
       \<and> distinct sel \<and> set sel \<subseteq> set (available_products (products s))
       \<and> add_items (products s, [], 0) sel g3 = Inr ((ps', its, sub), g4)
       \<and> items t = its \<and> txn_user_id t = user_id (users s ! ui)
       \<and> s' = s\<lparr>products := ps',
                 transactions := transactions s @ [t],
                 users := (users s)[ui := (users s ! ui)
                    \<lparr>total_orders := total_orders (users s ! ui) + 1,
                     lifetime_value := lifetime_value (users s ! ui) + txn_total t\<rparr>]\<rparr>)"
proof -
  let ?act = "active_user_refs (users s)"
  let ?av = "available_products (products s)"
  from assms obtain ui g1 where c: "choice ?act g = Inr (ui, g1)"
    unfolding txn_attempt_def by (cases "choice ?act g") auto
  from choice_in_set[OF c] have ui: "ui < length (users s)"
    "account_status (users s ! ui) = ''active''" by (simp_all add: active_user_refs_def)
  obtain num_items g2 where
    n: "draw_num_items g1 = (num_items, g2)"
    by (cases "draw_num_items g1") auto
  show ?thesis
  proof (cases "length ?av < num_items")
    case True
    then have "s' = s" using assms c n by (simp add: txn_attempt_def)
    then show ?thesis by simp
  next
    case False
    from assms c n False obtain sel g3 where sm: "sample ?av num_items g2 = Inr (sel, g3)"
      unfolding txn_attempt_def by (cases "sample ?av num_items g2") auto
    from sample_props[OF sm] distinct_available_products[of "products s"]
    have sel: "distinct sel" "set sel \<subseteq> set ?av" by simp_all
    from assms c n False sm obtain ps' its sub g4 where
      ai: "add_items (products s, [], 0) sel g3 = Inr ((ps', its, sub), g4)"
      unfolding txn_attempt_def by (cases "add_items (products s, [], 0) sel g3") auto
    obtain disc tx ship tot g5 where
      pt: "price_transaction sub g4 = ((disc, tx, ship, tot), g5)"
      by (cases "price_transaction sub g4") auto
    obtain pm g6 where
      pm: "choice_lit ''credit_card'' [''debit_card'', ''paypal'', ''apple_pay'',
             ''google_pay'', ''bank_transfer'', ''gift_card''] g5 = (pm, g6)"
      by (cases "choice_lit ''credit_card'' [''debit_card'', ''paypal'', ''apple_pay'',
             ''google_pay'', ''bank_transfer'', ''gift_card''] g5") auto
    obtain st g7 where
      st: "choices_w [''completed'', ''processing'', ''shipped'', ''delivered'', ''cancelled'']
             [7 / 10, 1 / 10, 1 / 10, 2 / 25, 1 / 50] g6 = (st, g7)"
      by (cases "choices_w [''completed'', ''processing'', ''shipped'', ''delivered'',
             ''cancelled''] [7 / 10, 1 / 10, 1 / 10, 2 / 25, 1 / 50] g6") auto
    define t where "t = \<lparr>txn_user_id = user_id (users s ! ui), items = its,
        subtotal = py_round sub 2, discount = disc, tax = tx, shipping = ship,
        txn_total = tot, payment_method = pm, status = st\<rparr>"
    have "s' = s\<lparr>products := ps',
                 transactions := transactions s @ [t],
                 users := (users s)[ui := (users s ! ui)
                    \<lparr>total_orders := total_orders (users s ! ui) + 1,
                     lifetime_value := lifetime_value (users s ! ui) + txn_total t\<rparr>]\<rparr>"
      using assms c n False sm ai pt pm st
      by (simp add: txn_attempt_def Let_def t_def)
    moreover have "items t = its" "txn_user_id t = user_id (users s ! ui)"
      by (simp_all add: t_def)
    ultimately show ?thesis using ui sel ai by blast
  qed
qed

subsection \<open>Stock bookkeeping\<close>

lemma add_items_nonneg:
  assumes run: "add_items (ps, its, sub) sel g = Inr ((ps', its', sub'), g')"
    and d: "distinct sel" and r: "\<forall>i\<in>set sel. i < length ps"
    and nn: "\<forall>p\<in>set ps. 0 \<le> current_stock p"
  shows "\<forall>p\<in>set ps'. 0 \<le> current_stock p"
proof -
  from add_items_spec[OF run d r] obtain new where
    len: "length ps' = length ps" and
    oks: "\<forall>k<length sel. purchase_ok (ps ! (sel ! k)) (ps' ! (sel ! k)) (new ! k)" and
    same: "\<forall>j. j \<notin> set sel \<longrightarrow> ps' ! j = ps ! j"
    by blast
  have "0 \<le> current_stock (ps' ! j)" if j: "j < length ps'" for j
  proof (cases "j \<in> set sel")
    case True
    then obtain k where k: "k < length sel" "sel ! k = j" by (auto simp: in_set_conv_nth)
    with oks have "purchase_ok (ps ! j) (ps' ! j) (new ! k)" by auto
    moreover have "0 \<le> current_stock (ps ! j)" using nn j len by simp
    ultimately show ?thesis by (simp add: purchase_ok_def)
  next
    case False
    then have "ps' ! j = ps ! j" using same by simp
    then show ?thesis using nn j len by simp
  qed
  then show ?thesis by (auto simp: in_set_conv_nth)
qed

lemma available_in_range:
  "set sel \<subseteq> set (available_products ps) \<Longrightarrow> \<forall>i\<in>set sel. i < length ps"
  by (auto simp: available_products_iff)

lemma txn_attempt_nonneg:
  assumes "txn_attempt s g = Inr (s', g')"
    and nn: "\<forall>p\<in>set (products s). 0 \<le> current_stock p"
  shows "\<forall>p\<in>set (products s'). 0 \<le> current_stock p"
  using txn_attempt_result[OF assms(1)]
proof (elim disjE exE conjE)
  assume "s' = s"
  then show ?thesis using nn by simp
next
  fix ui sel ps' its sub t g3 g4
  assume d: "distinct sel" and sub: "set sel \<subseteq> set (available_products (products s))"
    and ai: "add_items (products s, [], 0) sel g3 = Inr ((ps', its, sub), g4)"
    and s': "s' = s\<lparr>products := ps', transactions := transactions s @ [t],
                 users := (users s)[ui := (users s ! ui)
                    \<lparr>total_orders := total_orders (users s ! ui) + 1,
                     lifetime_value := lifetime_value (users s ! ui) + txn_total t\<rparr>]\<rparr>"
  from add_items_nonneg[OF ai d available_in_range[OF sub] nn]
  show ?thesis using s' by simp
qed

lemma transactions_loop_nonneg:
  "generate_transactions_loop n s g = Inr (s', g') \<Longrightarrow>
   \<forall>p\<in>set (products s). 0 \<le> current_stock p \<Longrightarrow>
   \<forall>p\<in>set (products s'). 0 \<le> current_stock p"
proof (induction n arbitrary: s g)
  case 0
  then show ?case by simp
next
  case (Suc n)
  from Suc.prems(1) obtain s1 g1 where
    step: "txn_attempt s g = Inr (s1, g1)" and
    rest: "generate_transactions_loop n s1 g1 = Inr (s', g')"
    by (auto split: sum.splits)
  from Suc.IH[OF rest txn_attempt_nonneg[OF step Suc.prems(2)]] show ?case .
qed

lemma txn_attempt_purchases:
  assumes att: "txn_attempt s g = Inr (s', g')"
    and app: "transactions s' = transactions s @ [t]"
  shows "\<exists>sel. distinct sel \<and> length sel = length (items t)
           \<and> (\<forall>k<length sel. sel ! k < length (products s)
                 \<and> purchase_ok (products s ! (sel ! k)) (products s' ! (sel ! k)) (items t ! k))
           \<and> (\<forall>j. j \<notin> set sel \<longrightarrow> products s' ! j = products s ! j)"
  using txn_attempt_result[OF att]
proof (elim disjE exE conjE)
  assume "s' = s"
  then show ?thesis using app by simp
next
  fix ui sel ps' its sub t' g3 g4
  assume d: "distinct sel" and sub: "set sel \<subseteq> set (available_products (products s))"
    and ai: "add_items (products s, [], 0) sel g3 = Inr ((ps', its, sub), g4)"
    and it: "items t' = its"
    and s': "s' = s\<lparr>products := ps', transactions := transactions s @ [t'],
                 users := (users s)[ui := (users s ! ui)
                    \<lparr>total_orders := total_orders (users s ! ui) + 1,
                     lifetime_value := lifetime_value (users s ! ui) + txn_total t'\<rparr>]\<rparr>"
  have tt: "t' = t" using s' app by simp
  have ps: "products s' = ps'" using s' by simp
  have rg: "\<forall>i\<in>set sel. i < length (products s)" by (rule available_in_range[OF sub])
  from add_items_spec[OF ai d rg] obtain new where
    new: "its = [] @ new" "length new = length sel" and
    oks: "\<forall>k<length sel. purchase_ok (products s ! (sel ! k)) (ps' ! (sel ! k)) (new ! k)" and
    same: "\<forall>j. j \<notin> set sel \<longrightarrow> ps' ! j = products s ! j"
    by blast
  have "items t = new" using it tt new by simp
  then show ?thesis
    using d new(2) oks same rg ps by (intro exI[of _ sel]) auto
qed

subsection \<open>The example run\<close>

lemmas rng_defs = draw_def randint_def py_random_def uniform_def choice_def choice_lit_def
  choices_w_def sample_def py_round_def active_user_refs_def draw_num_items_def

lemma example_txn_attempt:
  "txn_attempt example_state rng0 = Inr (example_state_after, (\<lambda>_. 0, 8))"
  by (simp add: txn_attempt_def example_state_def example_state_after_def example_user_def
      example_product_def example_transaction_def rng0_def available_products_def
      add_item_def price_transaction_def rng_defs Let_def)

lemma example_transactions_run:
  "generate_simple_transactions example_config example_state rng0
     = Inr (example_state_after, (\<lambda>_. 0, 8))"
  by (simp add: generate_simple_transactions_def example_config_def example_txn_attempt)



subsection \<open>User aggregates\<close>







subsection \<open>What each stage leaves alone\<close>

lemma generate_categories_frame:
  "generate_categories cfg s g = (s', g') \<Longrightarrow>
   products s' = products s \<and> users s' = users s \<and> sessions s' = sessions s
   \<and> transactions s' = transactions s"
  by (auto simp: generate_categories_def split: prod.splits)

lemma generate_products_loop_frame:
  "generate_products_loop n i start s g = Inr (s', g') \<Longrightarrow>
   categories s' = categories s \<and> users s' = users s \<and> sessions s' = sessions s
   \<and> transactions s' = transactions s"
proof (induction n arbitrary: i s g)
  case 0
  then show ?case by simp
next
  case (Suc n)
  from Suc.prems obtain p g1 where
    "generate_products_loop n (Suc i) start (s\<lparr>products := products s @ [p]\<rparr>) g1 = Inr (s', g')"
    by (auto split: sum.splits)
  from Suc.IH[OF this] show ?case by simp
qed

lemma generate_user_fresh:
  "generate_user cats uid g = Inr (u, g') \<Longrightarrow>
   user_id u = uid \<and> total_orders u = 0 \<and> lifetime_value u = 0"
  by (auto simp: generate_user_def split: sum.splits prod.splits)

lemma generate_users_loop_fresh:
  "generate_users_loop n uid s g = Inr (s', g') \<Longrightarrow>
   (\<exists>new. users s' = users s @ new \<and> map user_id new = [uid..<uid + n]
       \<and> (\<forall>u\<in>set new. total_orders u = 0 \<and> lifetime_value u = 0))
   \<and> categories s' = categories s \<and> products s' = products s
   \<and> sessions s' = sessions s \<and> transactions s' = transactions s"
proof (induction n arbitrary: uid s g)
  case 0
  then show ?case by simp
next
  case (Suc n)
  from Suc.prems obtain u g1 where
    u: "generate_user (categories s) uid g = Inr (u, g1)" and
    rest: "generate_users_loop n (Suc uid) (s\<lparr>users := users s @ [u]\<rparr>) g1 = Inr (s', g')"
    by (auto split: sum.splits)
  from Suc.IH[OF rest] obtain new where
    new: "users s' = (users s @ [u]) @ new" "map user_id new = [Suc uid..<Suc uid + n]"
      "\<forall>u\<in>set new. total_orders u = 0 \<and> lifetime_value u = 0" and
    frame: "categories s' = categories s" "products s' = products s"
      "sessions s' = sessions s" "transactions s' = transactions s"
    by auto
  have "users s' = users s @ (u # new)" using new(1) by simp
  moreover have "map user_id (u # new) = [uid..<uid + Suc n]"
    using new(2) generate_user_fresh[OF u] by (simp add: upt_conv_Cons)
  moreover have "\<forall>v\<in>set (u # new). total_orders v = 0 \<and> lifetime_value v = 0"
    using new(3) generate_user_fresh[OF u] by simp
  ultimately show ?case using frame by blast
qed

lemma session_attempt_frame:
  "session_attempt s g = Inr (s', g') \<Longrightarrow>
   categories s' = categories s \<and> products s' = products s \<and> users s' = users s
   \<and> transactions s' = transactions s"
  by (auto simp: session_attempt_def split: sum.splits prod.splits)

lemma generate_sessions_loop_frame:
  "generate_sessions_loop n s g = Inr (s', g') \<Longrightarrow>
   categories s' = categories s \<and> products s' = products s \<and> users s' = users s
   \<and> transactions s' = transactions s"
proof (induction n arbitrary: s g)
  case 0
  then show ?case by simp
next
  case (Suc n)
  from Suc.prems obtain s1 g1 where
    step: "session_attempt s g = Inr (s1, g1)" and
    rest: "generate_sessions_loop n s1 g1 = Inr (s', g')"
    by (auto split: sum.splits)
  from Suc.IH[OF rest] session_attempt_frame[OF step] show ?case by simp
qed

text \<open>The stages of a successful run of \<^verbatim>\<open>generate_all\<close>.\<close>

lemma generate_all_stages:
  assumes "generate_all cfg g now now' = Inr (s, sm)"
  obtains s1 g1 s2 g2 s3 g3 s4 g4 g5 where
    "generate_categories cfg init_state g = (s1, g1)"
    "generate_products cfg now s1 g1 = Inr (s2, g2)"
    "generate_users cfg s2 g2 = Inr (s3, g3)"
    "generate_simple_transactions cfg s3 g3 = Inr (s4, g4)"
    "generate_simple_sessions cfg s4 g4 = Inr (s, g5)"
    "generate_summary cfg s now' = Inr sm"
  using assms unfolding generate_all_def
  by (auto split: prod.splits sum.splits)


lemma example_run:
  "generate_all example_config rng_run now now' = Inr (run_state now, run_summary now')"
  by (simp add: generate_all_def generate_categories_def category_data_def init_state_def
      generate_products_def generate_product_def price_ranges_def generate_price_history_def
      timedelta_days_def generate_users_def generate_user_def
      generate_simple_transactions_def txn_attempt_def available_products_def add_item_def
      price_transaction_def generate_simple_sessions_def session_attempt_def
      generate_summary_def py_div_def
      example_config_def rng_run_def run_state_def run_summary_def rng_defs Let_def)




subsection \<open>Skipped attempts and completion of the transaction loop\<close>

lemma txn_attempt_skip:
  assumes "choice (active_user_refs (users s)) g = Inr (ui, g1)"
    and "draw_num_items g1 = (num_items, g2)"
    and "length (available_products (products s)) < num_items"
  shows "txn_attempt s g = Inr (s, g2)"
  using assms by (simp add: txn_attempt_def)

lemma txn_attempt_succeeds:
  assumes "active_user_refs (users s) \<noteq> []"
  shows "\<exists>s1 g1. txn_attempt s g = Inr (s1, g1)"
proof -
  let ?av = "available_products (products s)"
  from choice_succeeds[OF assms, of g] obtain ui g1 where
    c: "choice (active_user_refs (users s)) g = Inr (ui, g1)" by blast
  obtain num_items g2 where n: "draw_num_items g1 = (num_items, g2)"
    by (cases "draw_num_items g1") auto
  show ?thesis
  proof (cases "length ?av < num_items")
    case True
    from txn_attempt_skip[OF c n True] show ?thesis by blast
  next
    case False
    then have "num_items \<le> length ?av" by simp
    from sample_succeeds[OF this, of g2] obtain sel g3 where
      sm: "sample ?av num_items g2 = Inr (sel, g3)" by blast
    from sample_props[OF sm] distinct_available_products[of "products s"]
    have d: "distinct sel" and sub: "set sel \<subseteq> set ?av" by simp_all
    have pre: "\<forall>i\<in>set sel. i < length (products s) \<and> 0 < current_stock (products s ! i)"
      using sub by (auto simp: available_products_iff)
    from add_items_succeeds[OF d pre, of "[]" 0 g3] obtain st' g4 where
      ai: "add_items (products s, [], 0) sel g3 = Inr (st', g4)" by blast
    show ?thesis
      using c n False sm ai
      by (simp add: txn_attempt_def Let_def split: prod.splits)
  qed
qed

lemma active_user_refs_cong:
  assumes "map account_status us' = map account_status us"
  shows "active_user_refs us' = active_user_refs us"
proof -
  have len: "length us' = length us" using assms by (metis length_map)
  have "account_status (us' ! i) = account_status (us ! i)" if "i < length us" for i
    using assms that len by (metis nth_map)
  then show ?thesis
    unfolding active_user_refs_def len by (intro filter_cong) auto
qed

lemma txn_attempt_progress:
  assumes "txn_attempt s g = Inr (s1, g1)"
  shows "active_user_refs (users s1) = active_user_refs (users s)
         \<and> length (transactions s1) \<le> length (transactions s) + 1"
  using txn_attempt_result[OF assms]
proof (elim disjE exE conjE)
  assume "s1 = s"
  then show ?thesis by simp
next
  fix ui sel ps' its sub t g3 g4
  assume ui: "ui < length (users s)"
    and s1: "s1 = s\<lparr>products := ps', transactions := transactions s @ [t],
                 users := (users s)[ui := (users s ! ui)
                    \<lparr>total_orders := total_orders (users s ! ui) + 1,
                     lifetime_value := lifetime_value (users s ! ui) + txn_total t\<rparr>]\<rparr>"
  have "map account_status (users s1) = map account_status (users s)"
    unfolding s1 by (simp add: map_update list_update_same_conv ui)
  from active_user_refs_cong[OF this] show ?thesis using s1 by simp
qed

lemma transactions_loop_completes:
  "active_user_refs (users s) \<noteq> [] \<Longrightarrow>
   \<exists>s' g'. generate_transactions_loop n s g = Inr (s', g')"
proof (induction n arbitrary: s g)
  case 0
  show ?case by simp
next
  case (Suc n)
  from txn_attempt_succeeds[OF Suc.prems, of g] obtain s1 g1 where
    step: "txn_attempt s g = Inr (s1, g1)" by blast
  from txn_attempt_progress[OF step] Suc.prems
  have "active_user_refs (users s1) \<noteq> []" by simp
  from Suc.IH[OF this, of g1] show ?case using step by simp
qed

lemma transactions_loop_count:
  "generate_transactions_loop n s g = Inr (s', g') \<Longrightarrow>
   length (transactions s') \<le> length (transactions s) + n"
proof (induction n arbitrary: s g)
  case 0
  then show ?case by simp
next
  case (Suc n)
  from Suc.prems obtain s1 g1 where
    step: "txn_attempt s g = Inr (s1, g1)" and
    rest: "generate_transactions_loop n s1 g1 = Inr (s', g')"
    by (auto split: sum.splits)
  from Suc.IH[OF rest] txn_attempt_progress[OF step] show ?case by simp
qed

lemma transactions_loop_no_active_user:
  "active_user_refs (users s) = [] \<Longrightarrow>
   generate_transactions_loop (Suc n) s g = Inl IndexError"
  by (simp add: txn_attempt_def choice_def)

text \<open>
  Claim C5, as stated: \<^verbatim>\<open>_generate_simple_transactions\<close> completes for any
  configuration. It does not: with no active user, \<^verbatim>\<open>random.choice\<close> is called on an
  empty list in the first attempt and raises IndexError, before the stock is looked at.
  This happens when the only user is inactive, and in a whole run with
  \<^verbatim>\<open>NUM_USERS = 0\<close>.
\<close>

theorem transactions_without_active_user_counterexample:
  "generate_simple_transactions example_config inactive_state rng0 = Inl IndexError
   \<and> generate_all (example_config\<lparr>NUM_USERS := 0\<rparr>) rng_run 0 1 = Inl IndexError"
proof
  show "generate_simple_transactions example_config inactive_state rng0 = Inl IndexError"
    by (simp add: generate_simple_transactions_def example_config_def txn_attempt_def
        inactive_state_def example_state_def example_user_def rng0_def rng_defs)
  show "generate_all (example_config\<lparr>NUM_USERS := 0\<rparr>) rng_run 0 1 = Inl IndexError"
    by (simp add: generate_all_def generate_categories_def category_data_def init_state_def
      generate_products_def generate_product_def price_ranges_def generate_price_history_def
      timedelta_days_def generate_users_def generate_user_def
      generate_simple_transactions_def txn_attempt_def
      example_config_def rng_run_def rng_defs Let_def)
qed

text \<open>
  Claim C5, amended. An attempt that has chosen a user and finds fewer active, in-stock
  products than the item count it drew returns the state unchanged, without error. When
  at least one user is active, \<^verbatim>\<open>_generate_simple_transactions\<close> completes without
  error for every configuration, state and random source, and adds at most
  \<^verbatim>\<open>NUM_TRANSACTIONS\<close> transactions.
\<close>

theorem transactions_complete_with_active_user:
  "(choice (active_user_refs (users s)) g = Inr (ui, g1)
      \<and> draw_num_items g1 = (num_items, g2)
      \<and> length (available_products (products s)) < num_items \<longrightarrow>
    txn_attempt s g = Inr (s, g2))
   \<and> (active_user_refs (users s) \<noteq> [] \<longrightarrow>
        (\<exists>s' g'. generate_simple_transactions cfg s g = Inr (s', g')
           \<and> length (transactions s') \<le> length (transactions s) + NUM_TRANSACTIONS cfg))"
proof (intro conjI impI)
  assume "choice (active_user_refs (users s)) g = Inr (ui, g1)
      \<and> draw_num_items g1 = (num_items, g2)
      \<and> length (available_products (products s)) < num_items"
  then show "txn_attempt s g = Inr (s, g2)"
    using txn_attempt_skip by blast
next
  assume act: "active_user_refs (users s) \<noteq> []"
  from transactions_loop_completes[OF act, of "NUM_TRANSACTIONS cfg" g] obtain s' g' where
    run: "generate_transactions_loop (NUM_TRANSACTIONS cfg) s g = Inr (s', g')" by blast
  from transactions_loop_count[OF run]
  show "\<exists>s' g'. generate_simple_transactions cfg s g = Inr (s', g')
           \<and> length (transactions s') \<le> length (transactions s) + NUM_TRANSACTIONS cfg"
    using run by (simp add: generate_simple_transactions_def)
qed

theorem transactions_complete_with_active_user_witness:
  "choice (active_user_refs (users sold_out_state)) rng0 = Inr (0, (\<lambda>_. 0, 1))
   \<and> draw_num_items (\<lambda>_. 0, 1) = (1, (\<lambda>_. 0, 2))
   \<and> length (available_products (products sold_out_state)) < 1
   \<and> txn_attempt sold_out_state rng0 = Inr (sold_out_state, (\<lambda>_. 0, 2))
   \<and> active_user_refs (users sold_out_state) \<noteq> []
   \<and> (\<exists>s' g'. generate_simple_transactions example_config sold_out_state rng0 = Inr (s', g')
         \<and> length (transactions s')
             \<le> length (transactions sold_out_state) + NUM_TRANSACTIONS example_config)"
proof -
  have a: "choice (active_user_refs (users sold_out_state)) rng0 = Inr (0, (\<lambda>_. 0, 1))"
    by (simp add: sold_out_state_def example_state_def example_user_def rng0_def rng_defs)
  have b: "draw_num_items (\<lambda>_. 0, 1) = (1, (\<lambda>_. 0, 2))"
    by (simp add: rng_defs)
  have c: "length (available_products (products sold_out_state)) < 1"
    by (simp add: available_products_def sold_out_state_def example_state_def
        example_product_def)
  have d: "active_user_refs (users sold_out_state) \<noteq> []"
    by (simp add: sold_out_state_def example_state_def example_user_def rng_defs)
  show ?thesis
    using a b c d
      transactions_complete_with_active_user[of sold_out_state rng0 0 "(\<lambda>_. 0, 1)" 1
        "(\<lambda>_. 0, 2)" example_config]
    by blast
qed

subsection \<open>Sessions view the first hundred products only\<close>

lemma sample_from_map:
  "k \<le> length pool \<Longrightarrow>
   sample_from (map f pool) k g = (map f (fst (sample_from pool k g)), snd (sample_from pool k g))"
proof (induction k arbitrary: pool g)
  case 0
  show ?case by simp
next
  case (Suc k)
  obtain r g1 where dr: "draw g = (r, g1)" by (cases "draw g") auto
  define j where "j = r mod length pool"
  have "0 < length pool" using Suc.prems by linarith
  then have jlt: "j < length pool" unfolding j_def by (rule mod_less_divisor)
  let ?pool' = "take j pool @ drop (Suc j) pool"
  have len': "k \<le> length ?pool'" using Suc.prems jlt by simp
  have m: "take j (map f pool) @ drop (Suc j) (map f pool) = map f ?pool'"
    by (simp add: take_map drop_map)
  show ?case
    using Suc.IH[OF len', of g1] dr jlt m
    by (simp add: Let_def j_def[symmetric] split: prod.splits)
qed

lemma session_attempt_result:
  assumes "session_attempt s g = Inr (s', g')"
  shows "\<exists>user dur pages k viewed cs g3 g4 g5.
           user \<in> set (users s) \<and> randint 0 5 g3 = Inr (k, g4)
           \<and> sample (map product_id (take 100 (products s))) (nat k) g4 = Inr (viewed, g5)
           \<and> s' = s\<lparr>sessions := sessions s @
                   [\<lparr>sess_user_id = user_id user, duration_seconds = dur,
                     pages_viewed = pages, products_viewed = viewed,
                     conversion_status = cs\<rparr>]\<rparr>"
proof -
  from assms obtain user g1 where c: "choice (users s) g = Inr (user, g1)"
    unfolding session_attempt_def by (cases "choice (users s) g") auto
  from assms c obtain dur g2 where d: "randint 30 3600 g1 = Inr (dur, g2)"
    unfolding session_attempt_def by (cases "randint 30 3600 g1") auto
  from assms c d obtain pages g3 where p: "randint 1 15 g2 = Inr (pages, g3)"
    unfolding session_attempt_def by (cases "randint 1 15 g2") auto
  from assms c d p obtain k g4 where k: "randint 0 5 g3 = Inr (k, g4)"
    unfolding session_attempt_def by (cases "randint 0 5 g3") auto
  let ?ids = "map product_id (take 100 (products s))"
  from assms c d p k obtain viewed g5 where v: "sample ?ids (nat k) g4 = Inr (viewed, g5)"
    unfolding session_attempt_def by (cases "sample ?ids (nat k) g4") auto
  obtain cs g6 where
    cs: "choices_w [''converted'', ''abandoned'', ''browsed''] [3 / 100, 3 / 20, 41 / 50] g5
           = (cs, g6)"
    by (cases "choices_w [''converted'', ''abandoned'', ''browsed'']
                 [3 / 100, 3 / 20, 41 / 50] g5") auto
  have "s' = s\<lparr>sessions := sessions s @
                   [\<lparr>sess_user_id = user_id user, duration_seconds = dur,
                     pages_viewed = pages, products_viewed = viewed,
                     conversion_status = cs\<rparr>]\<rparr>"
    using assms c d p k v cs by (simp add: session_attempt_def)
  then show ?thesis using choice_in_set[OF c] k v by blast
qed

lemma first_products_ids:
  "map product_id (take 100 ps)
     = map (\<lambda>i. product_id (ps ! i)) [0..<min 100 (length ps)]"
proof -
  let ?first = "take 100 ps"
  have len: "length ?first = min 100 (length ps)" by (simp add: min.commute)
  have "map product_id ?first = map product_id (map ((!) ?first) [0..<length ?first])"
    by (simp only: map_nth)
  also have "\<dots> = map (\<lambda>i. product_id (?first ! i)) [0..<min 100 (length ps)]"
    by (simp only: map_map len comp_def)
  also have "\<dots> = map (\<lambda>i. product_id (ps ! i)) [0..<min 100 (length ps)]"
    by (rule map_cong) auto
  finally show ?thesis .
qed

lemma sample_first_products:
  assumes k: "0 \<le> k" "k \<le> 5"
    and sm: "sample (map product_id (take 100 ps)) (nat k) g = Inr (viewed, g')"
  shows "\<exists>idx. distinct idx \<and> length idx \<le> 5 \<and> set idx \<subseteq> {..<min 100 (length ps)}
           \<and> viewed = map (\<lambda>i. product_id (ps ! i)) idx"
proof -
  let ?m = "min 100 (length ps)"
  let ?f = "\<lambda>i. product_id (ps ! i)"
  define idx where "idx = fst (sample_from [0..<?m] (nat k) g)"
  from sm have le: "nat k \<le> length [0..<?m]"
    and v: "viewed = fst (sample_from (map ?f [0..<?m]) (nat k) g)"
    unfolding first_products_ids
    by (auto simp: sample_def split: if_splits)
  have "sample_from [0..<?m] (nat k) g = (idx, snd (sample_from [0..<?m] (nat k) g))"
    by (simp add: idx_def)
  from sample_from_props[OF le this]
  have p: "length idx = nat k" "set idx \<subseteq> set [0..<?m]" "distinct idx" by simp_all
  have "viewed = map ?f idx"
    unfolding v idx_def sample_from_map[OF le] by simp
  then show ?thesis using p k by (intro exI[of _ idx]) auto
qed

lemma session_attempt_viewed:
  assumes "session_attempt s g = Inr (s', g')"
  shows "products s' = products s
         \<and> (\<exists>ses. sessions s' = sessions s @ [ses] \<and> viewed_ok (products s) ses)"
proof -
  from session_attempt_result[OF assms]
  obtain user :: user and dur pages k viewed cs g3 g4 g5 where
    k: "randint 0 5 g3 = Inr (k, g4)" and
    sm: "sample (map product_id (take 100 (products s))) (nat k) g4 = Inr (viewed, g5)" and
    s': "s' = s\<lparr>sessions := sessions s @
                   [\<lparr>sess_user_id = user_id user, duration_seconds = dur,
                     pages_viewed = pages, products_viewed = viewed,
                     conversion_status = cs\<rparr>]\<rparr>"
    by blast
  from randint_range[OF k] have "0 \<le> k" "k \<le> 5" by simp_all
  from sample_first_products[OF this sm]
  show ?thesis unfolding s' by (simp add: viewed_ok_def)
qed

lemma sessions_loop_viewed:
  "generate_sessions_loop n s g = Inr (s', g') \<Longrightarrow>
   \<forall>ses\<in>set (sessions s). viewed_ok (products s) ses \<Longrightarrow>
   products s' = products s \<and> (\<forall>ses\<in>set (sessions s'). viewed_ok (products s) ses)"
proof (induction n arbitrary: s g)
  case 0
  then show ?case by simp
next
  case (Suc n)
  from Suc.prems(1) obtain s1 g1 where
    step: "session_attempt s g = Inr (s1, g1)" and
    rest: "generate_sessions_loop n s1 g1 = Inr (s', g')"
    by (auto split: sum.splits)
  from session_attempt_viewed[OF step] obtain ses where
    p1: "products s1 = products s" and
    s1: "sessions s1 = sessions s @ [ses]" "viewed_ok (products s) ses"
    by blast
  have "\<forall>x\<in>set (sessions s1). viewed_ok (products s1) x"
    using Suc.prems(2) s1 p1 by auto
  from Suc.IH[OF rest this] show ?case using p1 by simp
qed

lemma transactions_loop_sessions:
  "generate_transactions_loop n s g = Inr (s', g') \<Longrightarrow> sessions s' = sessions s"
proof (induction n arbitrary: s g)
  case 0
  then show ?case by simp
next
  case (Suc n)
  from Suc.prems obtain s1 g1 where
    step: "txn_attempt s g = Inr (s1, g1)" and
    rest: "generate_transactions_loop n s1 g1 = Inr (s', g')"
    by (auto split: sum.splits)
  have "sessions s1 = sessions s" using txn_attempt_result[OF step] by auto
  with Suc.IH[OF rest] show ?case by simp
qed

lemma generated_sessions_viewed:
  assumes "generate_all cfg g now now' = Inr (s, sm)"
  shows "\<forall>ses\<in>set (sessions s). viewed_ok (products s) ses"
proof -
  from generate_all_stages[OF assms] obtain s1 g1 s2 g2 s3 g3 s4 g4 g5 where
    st: "generate_categories cfg init_state g = (s1, g1)"
    "generate_products cfg now s1 g1 = Inr (s2, g2)"
    "generate_users cfg s2 g2 = Inr (s3, g3)"
    "generate_simple_transactions cfg s3 g3 = Inr (s4, g4)"
    "generate_simple_sessions cfg s4 g4 = Inr (s, g5)"
    by metis
  have "sessions s1 = []"
    using generate_categories_frame[OF st(1)] by (simp add: init_state_def)
  then have "sessions s2 = []"
    using generate_products_loop_frame[OF st(2)[unfolded generate_products_def]] by simp
  then have "sessions s3 = []"
    using generate_users_loop_fresh[OF st(3)[unfolded generate_users_def]] by simp
  then have "sessions s4 = []"
    using transactions_loop_sessions[OF st(4)[unfolded generate_simple_transactions_def]]
    by simp
  then have "\<forall>ses\<in>set (sessions s4). viewed_ok (products s4) ses" by simp
  from sessions_loop_viewed[OF st(5)[unfolded generate_simple_sessions_def] this]
  show ?thesis by simp
qed

lemma viewing_session_attempt:
  "session_attempt example_state rng_view
     = Inr (viewing_state, (\<lambda>i. if i = 3 then 1 else 0, 6))"
  by (simp add: session_attempt_def example_state_def example_user_def example_product_def
      viewing_state_def rng_view_def rng_defs)

lemma viewed_ok_prefix:
  assumes "viewed_ok ps ses"
  shows "length (products_viewed ses) \<le> 5
         \<and> set (products_viewed ses) \<subseteq> product_id ` set (take 100 ps)"
proof -
  from assms obtain idx where
    idx: "length idx \<le> 5" "set idx \<subseteq> {..<min 100 (length ps)}"
      "products_viewed ses = map (\<lambda>i. product_id (ps ! i)) idx"
    unfolding viewed_ok_def by blast
  have "product_id (ps ! i) \<in> product_id ` set (take 100 ps)" if "i \<in> set idx" for i
  proof -
    from that idx(2) have i: "i < 100" "i < length ps" by auto
    then have "take 100 ps ! i = ps ! i" "i < length (take 100 ps)" by simp_all
    then have "ps ! i \<in> set (take 100 ps)" by (metis nth_mem)
    then show ?thesis by simp
  qed
  then show ?thesis using idx(1,3) by auto
qed

text \<open>
  Claim C9. The products a session views are a sample of at most five ids taken at
  distinct positions among the first \<open>min(100, number of products)\<close> products, so the
  field has at most five entries, all of them ids of products of that prefix. Every
  session that \<^verbatim>\<open>_generate_simple_sessions\<close> adds is of this kind, the stage leaves the
  products alone, and every session of a successful \<^verbatim>\<open>generate_all\<close> is of this kind.
\<close>

theorem sessions_view_first_hundred:
  "(viewed_ok ps ses \<longrightarrow>
      length (products_viewed ses) \<le> 5
      \<and> set (products_viewed ses) \<subseteq> product_id ` set (take 100 ps))
   \<and> ((\<forall>x\<in>set (sessions s). viewed_ok (products s) x)
        \<and> generate_simple_sessions cfg s g = Inr (s', g') \<longrightarrow>
      products s' = products s \<and> (\<forall>x\<in>set (sessions s'). viewed_ok (products s') x))
   \<and> (generate_all cfg0 g0 now now' = Inr (sf, sm) \<longrightarrow>
      (\<forall>x\<in>set (sessions sf). viewed_ok (products sf) x))"
proof (intro conjI impI)
  assume "viewed_ok ps ses"
  then show "length (products_viewed ses) \<le> 5"
    and "set (products_viewed ses) \<subseteq> product_id ` set (take 100 ps)"
    using viewed_ok_prefix by blast+
next
  assume h: "(\<forall>x\<in>set (sessions s). viewed_ok (products s) x)
        \<and> generate_simple_sessions cfg s g = Inr (s', g')"
  then have run: "generate_sessions_loop (NUM_SESSIONS cfg) s g = Inr (s', g')"
    and pre: "\<forall>x\<in>set (sessions s). viewed_ok (products s) x"
    by (simp_all add: generate_simple_sessions_def)
  from sessions_loop_viewed[OF run pre]
  show "products s' = products s" and "\<forall>x\<in>set (sessions s'). viewed_ok (products s') x"
    by simp_all
next
  assume "generate_all cfg0 g0 now now' = Inr (sf, sm)"
  then show "\<forall>x\<in>set (sessions sf). viewed_ok (products sf) x"
    by (rule generated_sessions_viewed)
qed

theorem sessions_view_first_hundred_witness:
  "list_all (viewed_ok (products example_state)) (sessions example_state)
   \<and> generate_simple_sessions example_config example_state rng_view
       = Inr (viewing_state, (\<lambda>i. if i = 3 then 1 else 0, 6))
   \<and> map products_viewed (sessions viewing_state) = [[0]]
   \<and> products viewing_state = products example_state
   \<and> list_all (viewed_ok (products viewing_state)) (sessions viewing_state)
   \<and> list_all (\<lambda>x. length (products_viewed x) \<le> 5
        \<and> set (products_viewed x) \<subseteq> product_id ` set (take 100 (products viewing_state)))
        (sessions viewing_state)
   \<and> generate_all example_config rng_run 0 1 = Inr (run_state 0, run_summary 1)
   \<and> list_all (viewed_ok (products (run_state 0))) (sessions (run_state 0))"
proof -
  let ?g = "(\<lambda>i. if i = 3 then 1 else 0, 6) :: rng"
  have a: "\<forall>x\<in>set (sessions example_state). viewed_ok (products example_state) x"
    by (simp add: example_state_def)
  have b: "generate_simple_sessions example_config example_state rng_view
             = Inr (viewing_state, ?g)"
    by (simp add: generate_simple_sessions_def example_config_def viewing_session_attempt)
  have c: "map products_viewed (sessions viewing_state) = [[0]]"
    by (simp add: viewing_state_def)
  have w: "generate_all example_config rng_run 0 1 = Inr (run_state 0, run_summary 1)"
    by (rule example_run)
  have ok: "products viewing_state = products example_state
      \<and> (\<forall>x\<in>set (sessions viewing_state). viewed_ok (products viewing_state) x)"
    using a b sessions_view_first_hundred[of "products viewing_state" _ example_state
        example_config rng_view viewing_state ?g example_config rng_run 0 1
        "run_state 0" "run_summary 1"]
    by blast
  have pre: "\<forall>x\<in>set (sessions viewing_state). length (products_viewed x) \<le> 5
        \<and> set (products_viewed x) \<subseteq> product_id ` set (take 100 (products viewing_state))"
  proof
    fix x assume "x \<in> set (sessions viewing_state)"
    with ok have "viewed_ok (products viewing_state) x" by blast
    then show "length (products_viewed x) \<le> 5
        \<and> set (products_viewed x) \<subseteq> product_id ` set (take 100 (products viewing_state))"
      using sessions_view_first_hundred[of "products viewing_state" x example_state
        example_config rng_view viewing_state ?g example_config rng_run 0 1
        "run_state 0" "run_summary 1"]
      by blast
  qed
  have all: "\<forall>x\<in>set (sessions (run_state 0)). viewed_ok (products (run_state 0)) x"
    using w sessions_view_first_hundred[of "products viewing_state" "hd (sessions viewing_state)" example_state
        example_config rng_view viewing_state ?g example_config rng_run 0 1
        "run_state 0" "run_summary 1"]
    by blast
  show ?thesis
    using a b c w ok pre all unfolding list_all_iff by blast
qed

subsection \<open>The summary\<close>

lemma py_round_zero: "py_round 0 nd = 0"
  by (simp add: py_round_def)

lemma generate_summary_no_products:
  "products s = [] \<Longrightarrow> generate_summary cfg s now = Inl ZeroDivisionError"
  by (simp add: generate_summary_def py_div_def Let_def)

lemma generate_summary_with_products:
  assumes "products s \<noteq> []"
  shows "\<exists>sm. generate_summary cfg s now = Inr sm
           \<and> timestamp sm = now
           \<and> average_transaction_value sm =
               (if transactions s = [] then 0
                else py_round (sum_list (map txn_total (transactions s))
                               / of_nat (length (transactions s))) 2)
           \<and> conversion_rate sm =
               (if sessions s = [] then 0
                else py_round (of_nat (length (transactions s))
                               / of_nat (length (sessions s)) * 100) 2)
           \<and> average_product_rating sm =
               py_round (sum_list (map rating (products s)) / of_nat (length (products s))) 2"
  using assms by (simp add: generate_summary_def py_div_def Let_def py_round_zero)

lemma generate_summary_error:
  "generate_summary cfg s now = Inl e \<Longrightarrow> e = ZeroDivisionError \<and> products s = []"
  using generate_summary_with_products[of s cfg now] generate_summary_no_products[of s cfg now]
  by (cases "products s = []") auto

text \<open>
  Claim C10. \<^verbatim>\<open>_generate_summary\<close> raises ZeroDivisionError exactly when there is no
  product (the rating average is divided by \<^verbatim>\<open>len(self.products)\<close> without a guard).
  With at least one product it returns a summary, also when there are no transactions or
  no sessions: the two guarded quotients are then 0.
\<close>

theorem summary_needs_a_product:
  "((generate_summary cfg s now = Inl ZeroDivisionError) = (products s = []))
   \<and> (products s \<noteq> [] \<longrightarrow>
        (\<exists>sm. generate_summary cfg s now = Inr sm
           \<and> average_product_rating sm =
               py_round (sum_list (map rating (products s)) / of_nat (length (products s))) 2
           \<and> (transactions s = [] \<longrightarrow> average_transaction_value sm = 0)
           \<and> (sessions s = [] \<longrightarrow> conversion_rate sm = 0)))"
proof (intro conjI impI)
  show "(generate_summary cfg s now = Inl ZeroDivisionError) = (products s = [])"
    using generate_summary_no_products[of s cfg now] generate_summary_error[of cfg s now]
    by blast
next
  assume "products s \<noteq> []"
  from generate_summary_with_products[OF this, of cfg now]
  show "\<exists>sm. generate_summary cfg s now = Inr sm
           \<and> average_product_rating sm =
               py_round (sum_list (map rating (products s)) / of_nat (length (products s))) 2
           \<and> (transactions s = [] \<longrightarrow> average_transaction_value sm = 0)
           \<and> (sessions s = [] \<longrightarrow> conversion_rate sm = 0)"
    by auto
qed

theorem summary_needs_a_product_witness:
  "products init_state = []
   \<and> generate_summary example_config init_state 0 = Inl ZeroDivisionError
   \<and> products example_state \<noteq> [] \<and> transactions example_state = []
   \<and> sessions example_state = []
   \<and> (\<exists>sm. generate_summary example_config example_state 0 = Inr sm
         \<and> average_product_rating sm = 4
         \<and> average_transaction_value sm = 0 \<and> conversion_rate sm = 0)"
proof -
  have a: "products init_state = []" by (simp add: init_state_def)
  have b: "products example_state \<noteq> []" "transactions example_state = []"
    "sessions example_state = []"
    by (simp_all add: example_state_def)
  have c: "py_round (sum_list (map rating (products example_state))
                     / of_nat (length (products example_state))) 2 = 4"
    by (simp add: example_state_def example_product_def py_round_def)
  show ?thesis
    using a b c summary_needs_a_product[of example_config init_state 0]
      summary_needs_a_product[of example_config example_state 0]
    by auto
qed




subsection \<open>Preferred categories\<close>

lemma generate_user_preferences:
  assumes "generate_user cats uid g = Inr (u, g')"
  shows "1 \<le> length (preferred_categories u) \<and> length (preferred_categories u) \<le> 5
         \<and> length (preferred_categories u) \<le> length (filter cat_is_active cats)
         \<and> set (preferred_categories u) \<subseteq> category_id ` {c \<in> set cats. cat_is_active c}"
proof -
  let ?ids = "map category_id (filter cat_is_active cats)"
  from assms obtain k g1 where k: "randint 1 5 g = Inr (k, g1)"
    unfolding generate_user_def by (cases "randint 1 5 g") auto
  from assms k obtain prefs g2 where sm: "sample ?ids (nat k) g1 = Inr (prefs, g2)"
    unfolding generate_user_def by (cases "sample ?ids (nat k) g1") auto
  have u: "preferred_categories u = prefs"
    using assms k sm by (auto simp: generate_user_def split: prod.splits)
  from randint_range[OF k] have kr: "1 \<le> k" "k \<le> 5" by simp_all
  from sample_props[OF sm]
  have "length prefs = nat k" "nat k \<le> length ?ids" "set prefs \<subseteq> set ?ids" by simp_all
  then show ?thesis using kr u by auto
qed

lemma generate_user_raises:
  assumes "randint 1 5 g = Inr (k, g1)"
    and "length (filter cat_is_active cats) < nat k"
  shows "generate_user cats uid g = Inl ValueError"
  using assms by (simp add: generate_user_def sample_def)

text \<open>
  Claim C2, at an input where it fails. With two categories, both active, and a first
  user whose \<^verbatim>\<open>random.randint(1, 5)\<close> is 3, \<^verbatim>\<open>random.sample\<close> is asked for three of two
  ids: \<^verbatim>\<open>generate_users\<close>, and with it \<^verbatim>\<open>generate_all\<close>, raises ValueError. The sample
  size is not clamped.
\<close>

theorem preferred_categories_not_clamped:
  "(case generate_categories two_categories_config init_state rng_three of
      (s1, g1) \<Rightarrow>
        map cat_is_active (categories s1) = [True, True]
        \<and> (case generate_products two_categories_config 0 s1 g1 of
              Inl e \<Rightarrow> False
            | Inr (s2, g2) \<Rightarrow>
                randint 1 5 g2 = Inr (3, (fst g2, Suc (snd g2)))
                \<and> generate_users two_categories_config s2 g2 = Inl ValueError))
   \<and> generate_all two_categories_config rng_three 0 1 = Inl ValueError"
  by (simp add: generate_all_def generate_categories_def category_data_def init_state_def
      generate_products_def generate_product_def price_ranges_def generate_price_history_def
      timedelta_days_def generate_users_def generate_user_def
      two_categories_config_def example_config_def rng_three_def rng_defs Let_def)

subsection \<open>Generated products\<close>

lemma generate_product_result:
  assumes "generate_product cats start pid g = Inr (p, g')"
  shows "product_id p = pid
         \<and> (\<exists>bp g3 g4. generate_price_history bp start g3 = Inr (price_history p, g4))
         \<and> 0 \<le> current_stock p \<and> current_stock p \<le> 1000"
proof -
  from assms obtain category g1 where c: "choice cats g = Inr (category, g1)"
    unfolding generate_product_def by (cases "choice cats g") auto
  from assms c obtain subcategory g2 where
    sc: "choice (subcategories category) g1 = Inr (subcategory, g2)"
    unfolding generate_product_def by (cases "choice (subcategories category) g1") auto
  obtain min_price max_price where
    pr: "(case map_of price_ranges (cat_name category) of None \<Rightarrow> (10, 100) | Some r \<Rightarrow> r)
           = (min_price, max_price)"
    by (cases "case map_of price_ranges (cat_name category) of
                 None \<Rightarrow> (10 :: rat, 100 :: rat) | Some r \<Rightarrow> r") auto
  obtain bp g3 where u: "uniform min_price max_price g2 = (bp, g3)"
    by (cases "uniform min_price max_price g2") auto
  from assms c sc pr u obtain ph g4 where
    ph: "generate_price_history (py_round bp 2) start g3 = Inr (ph, g4)"
    unfolding generate_product_def
    by (cases "generate_price_history (py_round bp 2) start g3") auto
  from assms c sc pr u ph obtain stock g5 where st: "randint 0 1000 g4 = Inr (stock, g5)"
    unfolding generate_product_def by (cases "randint 0 1000 g4") (auto simp: Let_def)
  from assms c sc pr u ph st obtain reorder g6 where ro: "randint 10 50 g5 = Inr (reorder, g6)"
    unfolding generate_product_def by (cases "randint 10 50 g5") (auto simp: Let_def)
  obtain active g7 where a: "choices_w [True, False] [23 / 25, 2 / 25] g6 = (active, g7)"
    by (cases "choices_w [True, False] [23 / 25, 2 / 25] g6") auto
  obtain rt g8 where rt: "uniform 1 5 g7 = (rt, g8)"
    by (cases "uniform 1 5 g7") auto
  from assms c sc pr u ph st ro a rt obtain reviews g9 where
    rv: "randint 0 500 g8 = Inr (reviews, g9)"
    unfolding generate_product_def by (cases "randint 0 500 g8") (auto simp: Let_def)
  have p: "product_id p = pid" "price_history p = ph" "current_stock p = stock"
    using assms c sc pr u ph st ro a rt rv
    by (auto simp: generate_product_def Let_def)
  have "\<exists>bp g3 g4. generate_price_history bp start g3 = Inr (price_history p, g4)"
    using ph p(2) by blast
  moreover have "0 \<le> current_stock p \<and> current_stock p \<le> 1000"
    using randint_range[OF st] p(3) by simp
  ultimately show ?thesis using p(1) by blast
qed

lemma generate_product_chronological:
  assumes "generate_product cats start pid g = Inr (p, g')"
  shows "chronological (price_history p)"
proof -
  from generate_product_result[OF assms] obtain bp g3 g4 where
    "generate_price_history bp start g3 = Inr (price_history p, g4)" by blast
  with generate_price_history_ok[of bp start g3] show ?thesis by auto
qed

lemma generate_products_loop_chronological:
  "generate_products_loop n i start s g = Inr (s', g') \<Longrightarrow>
   \<forall>p\<in>set (products s). chronological (price_history p) \<Longrightarrow>
   \<forall>p\<in>set (products s'). chronological (price_history p)"
proof (induction n arbitrary: i s g)
  case 0
  then show ?case by simp
next
  case (Suc n)
  from Suc.prems(1) obtain p g1 where
    p: "generate_product (categories s) start i g = Inr (p, g1)" and
    rest: "generate_products_loop n (Suc i) start (s\<lparr>products := products s @ [p]\<rparr>) g1
             = Inr (s', g')"
    by (auto split: sum.splits)
  have "\<forall>q\<in>set (products (s\<lparr>products := products s @ [p]\<rparr>)). chronological (price_history q)"
    using Suc.prems(2) generate_product_chronological[OF p] by simp
  from Suc.IH[OF rest this] show ?case .
qed

lemma generate_products_loop_stock:
  "generate_products_loop n i start s g = Inr (s', g') \<Longrightarrow>
   \<forall>p\<in>set (products s). 0 \<le> current_stock p \<Longrightarrow>
   \<forall>p\<in>set (products s'). 0 \<le> current_stock p"
proof (induction n arbitrary: i s g)
  case 0
  then show ?case by simp
next
  case (Suc n)
  from Suc.prems(1) obtain p g1 where
    p: "generate_product (categories s) start i g = Inr (p, g1)" and
    rest: "generate_products_loop n (Suc i) start (s\<lparr>products := products s @ [p]\<rparr>) g1
             = Inr (s', g')"
    by (auto split: sum.splits)
  have "\<forall>q\<in>set (products (s\<lparr>products := products s @ [p]\<rparr>)). 0 \<le> current_stock q"
    using Suc.prems(2) generate_product_result[OF p] by simp
  from Suc.IH[OF rest this] show ?case .
qed

subsection \<open>Purchases change the stock and nothing else\<close>

lemma add_item_histories:
  assumes "add_item (ps, its, sub) i g = Inr ((ps', its', sub'), g1)"
  shows "map price_history ps' = map price_history ps"
proof -
  from add_item_spec[OF assms] obtain it :: item where
    ps': "ps' = ps[i := (ps ! i)\<lparr>current_stock := current_stock (ps ! i) - quantity it\<rparr>]"
    by auto
  show ?thesis
  proof (cases "i < length ps")
    case True
    then show ?thesis unfolding ps' by (simp add: map_update list_update_same_conv)
  next
    case False
    then show ?thesis unfolding ps' by (simp add: list_update_beyond)
  qed
qed

lemma add_items_histories:
  "add_items (ps, its, sub) sel g = Inr ((ps', its', sub'), g') \<Longrightarrow>
   map price_history ps' = map price_history ps"
proof (induction sel arbitrary: ps its sub g)
  case Nil
  then show ?case by simp
next
  case (Cons i sel)
  from Cons.prems obtain ps1 its1 sub1 g1 where
    step: "add_item (ps, its, sub) i g = Inr ((ps1, its1, sub1), g1)" and
    rest: "add_items (ps1, its1, sub1) sel g1 = Inr ((ps', its', sub'), g')"
    by (auto split: sum.splits)
  from Cons.IH[OF rest] add_item_histories[OF step] show ?case by simp
qed

lemma txn_attempt_histories:
  assumes "txn_attempt s g = Inr (s', g')"
  shows "map price_history (products s') = map price_history (products s)"
  using txn_attempt_result[OF assms]
proof (elim disjE exE conjE)
  assume "s' = s"
  then show ?thesis by simp
next
  fix ui sel ps' its sub t g3 g4
  assume ai: "add_items (products s, [], 0) sel g3 = Inr ((ps', its, sub), g4)"
    and s': "s' = s\<lparr>products := ps', transactions := transactions s @ [t],
                 users := (users s)[ui := (users s ! ui)
                    \<lparr>total_orders := total_orders (users s ! ui) + 1,
                     lifetime_value := lifetime_value (users s ! ui) + txn_total t\<rparr>]\<rparr>"
  from add_items_histories[OF ai] show ?thesis unfolding s' by simp
qed

lemma transactions_loop_histories:
  "generate_transactions_loop n s g = Inr (s', g') \<Longrightarrow>
   map price_history (products s') = map price_history (products s)"
proof (induction n arbitrary: s g)
  case 0
  then show ?case by simp
next
  case (Suc n)
  from Suc.prems obtain s1 g1 where
    step: "txn_attempt s g = Inr (s1, g1)" and
    rest: "generate_transactions_loop n s1 g1 = Inr (s', g')"
    by (auto split: sum.splits)
  from Suc.IH[OF rest] txn_attempt_histories[OF step] show ?case by simp
qed

lemma generated_products_chronological:
  assumes "generate_all cfg g now now' = Inr (s, sm)"
  shows "\<forall>p\<in>set (products s). chronological (price_history p)"
proof -
  from generate_all_stages[OF assms] obtain s1 g1 s2 g2 s3 g3 s4 g4 g5 where
    st: "generate_categories cfg init_state g = (s1, g1)"
    "generate_products cfg now s1 g1 = Inr (s2, g2)"
    "generate_users cfg s2 g2 = Inr (s3, g3)"
    "generate_simple_transactions cfg s3 g3 = Inr (s4, g4)"
    "generate_simple_sessions cfg s4 g4 = Inr (s, g5)"
    by metis
  have "products s1 = []"
    using generate_categories_frame[OF st(1)] by (simp add: init_state_def)
  then have "\<forall>p\<in>set (products s1). chronological (price_history p)" by simp
  from generate_products_loop_chronological[OF st(2)[unfolded generate_products_def] this]
  have c2: "\<forall>h\<in>set (map price_history (products s2)). chronological h" by simp
  have "products s3 = products s2"
    using generate_users_loop_fresh[OF st(3)[unfolded generate_users_def]] by simp
  moreover have "map price_history (products s4) = map price_history (products s3)"
    using transactions_loop_histories[OF st(4)[unfolded generate_simple_transactions_def]] .
  moreover have "products s = products s4"
    using generate_sessions_loop_frame[OF st(5)[unfolded generate_simple_sessions_def]]
    by simp
  ultimately have "map price_history (products s) = map price_history (products s2)"
    by simp
  with c2 have "\<forall>h\<in>set (map price_history (products s)). chronological h" by simp
  then show ?thesis by simp
qed

lemma example_history_run:
  "generate_price_history 10 0 rng_hist
     = Inr (example_history, (\<lambda>i. if i = 0 then 1 else 0, 4))"
  by (simp add: generate_price_history_def price_change_def timedelta_days_def
      rng_hist_def example_history_def rng_defs Let_def)

text \<open>
  Claim C8. For every base price, start date and random source,
  \<^verbatim>\<open>_generate_price_history\<close> returns a history that is non-empty, whose first entry
  has reason \<^verbatim>\<open>initial_listing\<close>, in which each entry is dated 7 to 45 days after the one
  before it, and whose dates are therefore non-decreasing. Every product that
  \<^verbatim>\<open>generate_products\<close> adds carries such a history, and so does every product at the
  end of a successful \<^verbatim>\<open>generate_all\<close>.
\<close>

theorem price_history_chronological:
  "(\<exists>ph g1. generate_price_history bp sd g = Inr (ph, g1) \<and> chronological ph)
   \<and> ((\<forall>p\<in>set (products s). chronological (price_history p))
        \<and> generate_products cfg now s g0 = Inr (s', g') \<longrightarrow>
      (\<forall>p\<in>set (products s'). chronological (price_history p)))
   \<and> (generate_all cfg0 g00 now0 now' = Inr (sf, sm) \<longrightarrow>
      (\<forall>p\<in>set (products sf). chronological (price_history p)))"
proof (intro conjI impI)
  show "\<exists>ph g1. generate_price_history bp sd g = Inr (ph, g1) \<and> chronological ph"
    by (rule generate_price_history_ok)
next
  assume h: "(\<forall>p\<in>set (products s). chronological (price_history p))
        \<and> generate_products cfg now s g0 = Inr (s', g')"
  then have run: "generate_products_loop (NUM_PRODUCTS cfg) 0
       (now - timedelta_days (int (TIMESPAN_DAYS cfg) * 2)) s g0 = Inr (s', g')"
    and pre: "\<forall>p\<in>set (products s). chronological (price_history p)"
    by (simp_all add: generate_products_def)
  from generate_products_loop_chronological[OF run pre]
  show "\<forall>p\<in>set (products s'). chronological (price_history p)" .
next
  assume "generate_all cfg0 g00 now0 now' = Inr (sf, sm)"
  then show "\<forall>p\<in>set (products sf). chronological (price_history p)"
    by (rule generated_products_chronological)
qed

lemma example_products_run:
  "generate_products example_config 0 ((run_state 0)\<lparr>products := []\<rparr>)
       (\<lambda>i. if i = 15 then 2 else 0, 11)
     = Inr ((run_state 0)\<lparr>products := [hd (products (run_state 0))\<lparr>current_stock := 2\<rparr>]\<rparr>,
            (\<lambda>i. if i = 15 then 2 else 0, 20))"
  by (simp add: generate_products_def generate_product_def price_ranges_def
      generate_price_history_def timedelta_days_def example_config_def run_state_def
      rng_defs Let_def)

theorem price_history_chronological_witness:
  "generate_price_history 10 0 rng_hist
     = Inr (example_history, (\<lambda>i. if i = 0 then 1 else 0, 4))
   \<and> map date example_history = [0, 7 * 86400000000]
   \<and> chronological example_history
   \<and> list_all (\<lambda>p. chronological (price_history p))
        (products ((run_state 0)\<lparr>products := []\<rparr>))
   \<and> generate_products example_config 0 ((run_state 0)\<lparr>products := []\<rparr>)
         (\<lambda>i. if i = 15 then 2 else 0, 11)
       = Inr ((run_state 0)\<lparr>products := [hd (products (run_state 0))\<lparr>current_stock := 2\<rparr>]\<rparr>,
              (\<lambda>i. if i = 15 then 2 else 0, 20))
   \<and> chronological (price_history (hd (products (run_state 0))\<lparr>current_stock := 2\<rparr>))
   \<and> generate_all example_config rng_run 0 1 = Inr (run_state 0, run_summary 1)
   \<and> list_all (\<lambda>p. chronological (price_history p)) (products (run_state 0))"
proof -
  let ?g = "(\<lambda>i. if i = 0 then 1 else 0, 4) :: rng"
  let ?s = "(run_state 0)\<lparr>products := []\<rparr>"
  let ?s' = "(run_state 0)\<lparr>products := [hd (products (run_state 0))\<lparr>current_stock := 2\<rparr>]\<rparr>"
  note inst = price_history_chronological[of 10 0 rng_hist ?s example_config 0
      "(\<lambda>i. if i = 15 then 2 else 0, 11)" ?s' "(\<lambda>i. if i = 15 then 2 else 0, 20)"
      example_config rng_run 0 1 "run_state 0" "run_summary 1"]
  have a: "generate_price_history 10 0 rng_hist = Inr (example_history, ?g)"
    by (rule example_history_run)
  have b: "map date example_history = [0, 7 * 86400000000]"
    by (simp add: example_history_def)
  have c: "chronological example_history"
    using a inst by auto
  have d: "\<forall>p\<in>set (products ?s). chronological (price_history p)"
    by simp
  have e: "generate_products example_config 0 ?s (\<lambda>i. if i = 15 then 2 else 0, 11)
             = Inr (?s', (\<lambda>i. if i = 15 then 2 else 0, 20))"
    by (rule example_products_run)
  have f: "\<forall>p\<in>set (products ?s'). chronological (price_history p)"
    using d e inst by blast
  have w: "generate_all example_config rng_run 0 1 = Inr (run_state 0, run_summary 1)"
    by (rule example_run)
  have h: "\<forall>p\<in>set (products (run_state 0)). chronological (price_history p)"
    using w inst by blast
  show ?thesis
    using a b c d e f w h unfolding list_all_iff by simp
qed

lemma generated_stock_nonneg:
  assumes "generate_all cfg g now now' = Inr (s, sm)"
  shows "\<forall>p\<in>set (products s). 0 \<le> current_stock p"
proof -
  from generate_all_stages[OF assms] obtain s1 g1 s2 g2 s3 g3 s4 g4 g5 where
    st: "generate_categories cfg init_state g = (s1, g1)"
    "generate_products cfg now s1 g1 = Inr (s2, g2)"
    "generate_users cfg s2 g2 = Inr (s3, g3)"
    "generate_simple_transactions cfg s3 g3 = Inr (s4, g4)"
    "generate_simple_sessions cfg s4 g4 = Inr (s, g5)"
    by metis
  have "products s1 = []"
    using generate_categories_frame[OF st(1)] by (simp add: init_state_def)
  then have "\<forall>p\<in>set (products s1). 0 \<le> current_stock p" by simp
  from generate_products_loop_stock[OF st(2)[unfolded generate_products_def] this]
  have "\<forall>p\<in>set (products s2). 0 \<le> current_stock p" .
  moreover have "products s3 = products s2"
    using generate_users_loop_fresh[OF st(3)[unfolded generate_users_def]] by simp
  ultimately have "\<forall>p\<in>set (products s3). 0 \<le> current_stock p" by simp
  from transactions_loop_nonneg[OF st(4)[unfolded generate_simple_transactions_def] this]
  have "\<forall>p\<in>set (products s4). 0 \<le> current_stock p" .
  moreover have "products s = products s4"
    using generate_sessions_loop_frame[OF st(5)[unfolded generate_simple_sessions_def]]
    by simp
  ultimately show ?thesis by simp
qed

text \<open>
  Claim C1. For every state and random source: when an attempt of
  \<^verbatim>\<open>_generate_simple_transactions\<close> makes a transaction \<open>t\<close>, its items were bought from
  pairwise distinct products \<open>sel\<close>, one item each; every quantity is between 1 and
  \<open>min(3, current_stock)\<close> of its product before the attempt, that product's stock goes
  down by exactly the quantity, and no other product changes. And when no stock is
  negative before \<^verbatim>\<open>_generate_simple_transactions\<close>, none is negative after it; the
  stocks that \<^verbatim>\<open>generate_products\<close> draws are not negative, so none is negative at the
  end of a successful \<^verbatim>\<open>generate_all\<close>.
\<close>

theorem purchases_respect_stock:
  "(txn_attempt s g = Inr (s1, g1) \<and> transactions s1 = transactions s @ [t] \<longrightarrow>
      (\<exists>sel. distinct sel \<and> length sel = length (items t)
         \<and> (\<forall>k<length sel. sel ! k < length (products s)
               \<and> purchase_ok (products s ! (sel ! k)) (products s1 ! (sel ! k)) (items t ! k))
         \<and> (\<forall>j. j \<notin> set sel \<longrightarrow> products s1 ! j = products s ! j)))
   \<and> ((\<forall>p\<in>set (products s). 0 \<le> current_stock p)
        \<and> generate_simple_transactions cfg s g = Inr (s', g') \<longrightarrow>
      (\<forall>p\<in>set (products s'). 0 \<le> current_stock p))
   \<and> (generate_all cfg0 g0 now now' = Inr (sf, sm) \<longrightarrow>
      (\<forall>p\<in>set (products sf). 0 \<le> current_stock p))"
proof (intro conjI impI)
  assume "txn_attempt s g = Inr (s1, g1) \<and> transactions s1 = transactions s @ [t]"
  then show "\<exists>sel. distinct sel \<and> length sel = length (items t)
         \<and> (\<forall>k<length sel. sel ! k < length (products s)
               \<and> purchase_ok (products s ! (sel ! k)) (products s1 ! (sel ! k)) (items t ! k))
         \<and> (\<forall>j. j \<notin> set sel \<longrightarrow> products s1 ! j = products s ! j)"
    using txn_attempt_purchases by blast
next
  assume "(\<forall>p\<in>set (products s). 0 \<le> current_stock p)
        \<and> generate_simple_transactions cfg s g = Inr (s', g')"
  then show "\<forall>p\<in>set (products s'). 0 \<le> current_stock p"
    unfolding generate_simple_transactions_def
    using transactions_loop_nonneg by blast
next
  assume "generate_all cfg0 g0 now now' = Inr (sf, sm)"
  then show "\<forall>p\<in>set (products sf). 0 \<le> current_stock p"
    by (rule generated_stock_nonneg)
qed

theorem purchases_respect_stock_witness:
  "txn_attempt example_state rng0 = Inr (example_state_after, (\<lambda>_. 0, 8))
   \<and> transactions example_state_after = transactions example_state @ [example_transaction]
   \<and> (\<exists>sel. distinct sel \<and> length sel = length (items example_transaction)
         \<and> (\<forall>k<length sel. sel ! k < length (products example_state)
               \<and> purchase_ok (products example_state ! (sel ! k))
                    (products example_state_after ! (sel ! k)) (items example_transaction ! k))
         \<and> (\<forall>j. j \<notin> set sel \<longrightarrow>
               products example_state_after ! j = products example_state ! j))
   \<and> list_all (\<lambda>p. 0 \<le> current_stock p) (products example_state)
   \<and> generate_simple_transactions example_config example_state rng0
        = Inr (example_state_after, (\<lambda>_. 0, 8))
   \<and> list_all (\<lambda>p. 0 \<le> current_stock p) (products example_state_after)
   \<and> generate_all example_config rng_run 0 1 = Inr (run_state 0, run_summary 1)
   \<and> list_all (\<lambda>p. 0 \<le> current_stock p) (products (run_state 0))"
proof -
  have a: "txn_attempt example_state rng0 = Inr (example_state_after, (\<lambda>_. 0, 8))"
    by (rule example_txn_attempt)
  have b: "transactions example_state_after = transactions example_state @ [example_transaction]"
    by (simp add: example_state_after_def example_state_def)
  have c: "\<forall>p\<in>set (products example_state). 0 \<le> current_stock p"
    by (simp add: example_state_def example_product_def)
  have d: "generate_simple_transactions example_config example_state rng0
        = Inr (example_state_after, (\<lambda>_. 0, 8))"
    by (rule example_transactions_run)
  have w: "generate_all example_config rng_run 0 1 = Inr (run_state 0, run_summary 1)"
    by (rule example_run)
  show ?thesis
    using a b c d w
      purchases_respect_stock[of example_state rng0 example_state_after "(\<lambda>_. 0, 8)"
        example_transaction example_config example_state_after "(\<lambda>_. 0, 8)"
        example_config rng_run 0 1 "run_state 0" "run_summary 1"]
    unfolding list_all_iff by blast
qed

subsection \<open>The clock enters through price-history dates and the summary's timestamp\<close>

























end
